theory Spec2Isabelle
  imports Complex_Main "HOL-Library.AList"
begin

section \<open>Browser helpers (src/utils.ts, src/EnvironmentError.ts)\<close>

text \<open>
  A JavaScript function value is modelled by its \<open>name\<close> property and by what a call
  with the \<open>window\<close> object computes. The result type \<open>'a\<close> stands for everything a call
  can produce (a value, or an exception of the function's own), so that what the helpers
  raise themselves is kept apart from what the wrapped function does.

  The global \<open>window\<close> has type \<open>Window | undefined\<close>: it is an \<open>option\<close>, and the
  source's truthiness tests \<open>window ? .. : ..\<close>, \<open>if (window)\<close>, \<open>if (!window)\<close> are tests
  for \<open>Some\<close>, since every object is truthy.
\<close>

record ('w, 'a) jsfun =
  fn_name :: string
  fn_call :: "'w \<Rightarrow> 'a"

text \<open>
  \<^verbatim>\<open>
  export class EnvironmentError extends Error {
    public readonly fn: AnyBrowserFn;
    public constructor(fn: AnyBrowserFn) {
      const name = fn.name ? `Function ${fn.name}` : 'Anonymous function';
      super(`${name} executed on wrong environment, expected browser`);
      this.fn = fn;
    }
  }
  Object.defineProperty(EnvironmentError.prototype, 'name',
    { enumerable: false, value: 'EnvironmentError' });
  \<close>
  A string is truthy when it is not empty.
\<close>

record ('w, 'a) EnvironmentError =
  fn :: "('w, 'a) jsfun"
  name :: string
  message :: string

definition EnvironmentError_new :: "('w, 'a) jsfun \<Rightarrow> ('w, 'a) EnvironmentError" where
  "EnvironmentError_new f =
     \<lparr> fn = f,
       name = ''EnvironmentError'',
       message = (if fn_name f \<noteq> [] then ''Function '' @ fn_name f else ''Anonymous function'')
                 @ '' executed on wrong environment, expected browser'' \<rparr>"

text \<open>The console, as the list of calls made on it, oldest first.\<close>

datatype ('w, 'a) console_call =
    ConsoleWarn "('w, 'a) EnvironmentError"
  | ConsoleError "('w, 'a) EnvironmentError"

text \<open>
  \<^verbatim>\<open>
  export function onBrowser(fn: BrowserFn<unknown>, fallbackValue?: unknown) {
    return window ? fn(window) : fallbackValue;
  }
  \<close>
\<close>

definition onBrowser :: "'w option \<Rightarrow> ('w, 'a) jsfun \<Rightarrow> 'a \<Rightarrow> 'a" where
  "onBrowser window f fallbackValue =
     (case window of Some w \<Rightarrow> fn_call f w | None \<Rightarrow> fallbackValue)"

text \<open>
  \<^verbatim>\<open>
  export function onBrowserOrThrow<ReturnType>(fn: BrowserFn<ReturnType>): ReturnType {
    if (window) {
      return fn(window);
    } else {
      throw new EnvironmentError(fn);
    }
  }
  \<close>
  \<open>Inl\<close> is the exception thrown by \<open>onBrowserOrThrow\<close> itself.
\<close>

definition onBrowserOrThrow ::
  "'w option \<Rightarrow> ('w, 'a) jsfun \<Rightarrow> ('w, 'a) EnvironmentError + 'a" where
  "onBrowserOrThrow window f =
     (case window of Some w \<Rightarrow> Inr (fn_call f w) | None \<Rightarrow> Inl (EnvironmentError_new f))"

text \<open>
  \<^verbatim>\<open>
  export function onBrowserOrWarn(fn: BrowserFn<unknown>, fallbackValue?: unknown) {
    if (!window) {
      // eslint-disable-next-line no-console
      console.error(new EnvironmentError(fn));
    }
    return window ? fn(window) : fallbackValue;
  }
  \<close>
  The result is the returned value together with the console calls made.
\<close>

definition onBrowserOrWarn ::
  "'w option \<Rightarrow> ('w, 'a) jsfun \<Rightarrow> 'a \<Rightarrow> 'a \<times> ('w, 'a) console_call list" where
  "onBrowserOrWarn window f fallbackValue =
     (let console = (if window = None then [ConsoleError (EnvironmentError_new f)] else [])
      in ((case window of Some w \<Rightarrow> fn_call f w | None \<Rightarrow> fallbackValue), console))"


section \<open>The build script: configuration\<close>

text \<open>
  What \<open>json5.parse\<close> returns: a JavaScript value built from null, booleans, numbers
  (JSON5 also reads \<open>NaN\<close> and the infinities), strings, arrays and plain objects. An
  object is the list of its own properties, each key once.
\<close>

datatype json =
    JNull
  | JBool bool
  | JNum real
  | JNaN
  | JInfinity bool
  | JStr string
  | JArr "json list"
  | JObj "(string \<times> json) list"

text \<open>
  JavaScript truthiness. \<open>None\<close> is \<open>undefined\<close>, the value of a property that is not
  there.
\<close>

fun truthy :: "json option \<Rightarrow> bool" where
  "truthy None = False"
| "truthy (Some JNull) = False"
| "truthy (Some (JBool b)) = b"
| "truthy (Some (JNum x)) = (x \<noteq> 0)"
| "truthy (Some JNaN) = False"
| "truthy (Some (JInfinity _)) = True"
| "truthy (Some (JStr s)) = (s \<noteq> [])"
| "truthy (Some (JArr _)) = True"
| "truthy (Some (JObj _)) = True"

text \<open>\<open>typeof v === 'object'\<close>: null, arrays and objects.\<close>

fun typeof_object :: "json \<Rightarrow> bool" where
  "typeof_object JNull = True"
| "typeof_object (JArr _) = True"
| "typeof_object (JObj _) = True"
| "typeof_object _ = False"

fun instanceof_Array :: "json \<Rightarrow> bool" where
  "instanceof_Array (JArr _) = True"
| "instanceof_Array _ = False"

text \<open>
  Property access \<open>v.key\<close> for the keys the script reads (\<open>extends\<close>, \<open>compilerOptions\<close>,
  \<open>outDir\<close>), none of which is a property of a prototype: an own property of an object,
  \<open>undefined\<close> on anything else. With \<open>?.\<close> the access is \<open>undefined\<close> on \<open>undefined\<close>
  and \<open>null\<close> as well.
\<close>

fun get :: "json \<Rightarrow> string \<Rightarrow> json option" where
  "get (JObj kvs) k = map_of kvs k"
| "get _ k = None"

fun optional_get :: "json option \<Rightarrow> string \<Rightarrow> json option" where
  "optional_get None k = None"
| "optional_get (Some v) k = get v k"

datatype errno = ENOENT | ENOTDIR | EISDIR | EEXIST

text \<open>
  The three messages of the \<open>Error\<close>s that \<open>resolveOutDir\<close> throws:
  \<^item> \<open>InvalidTsconfig\<close>: \<^verbatim>\<open>Invalid tsconfig.json file in project root\<close>
  \<^item> \<open>ExtendsUnsupported\<close>: \<^verbatim>\<open>No support for "extends" option in tsconfig.json yet\<close>
  \<^item> \<open>OutDirRequired\<close>:
    \<^verbatim>\<open>The tsconfig.json file must have a "compilerOptions.outDir" option\<close>
\<close>

datatype config_message = InvalidTsconfig | ExtendsUnsupported | OutDirRequired

text \<open>
  Everything the script can throw: a system error of \<open>fs\<close>, the \<open>SyntaxError\<close> of
  \<open>json5.parse\<close>, the \<open>TypeError\<close> of \<open>path.resolve\<close>, and its own \<open>Error\<close>s.
\<close>

datatype error =
    SystemError errno
  | SyntaxError
  | TypeError
  | Error config_message

text \<open>
  The surroundings of the script that are not in the repository: the text of
  \<open>tsconfig.json\<close> (\<open>None\<close> when the file is absent, where \<open>fs.readFileSync\<close> throws
  \<open>ENOENT\<close>), the parser \<open>json5.parse\<close> (\<open>None\<close> where it throws a \<open>SyntaxError\<close>) and
  \<open>path.resolve(__dirname, \<dots>)\<close> on a string.
\<close>

record config_env =
  tsconfig_json :: "string option"
  json5_parse :: "string \<Rightarrow> json option"
  path_resolve :: "string \<Rightarrow> string"

text \<open>
  \<open>const resolve = (...args) => path.resolve(__dirname, ...args)\<close>, applied to a value
  read from the configuration. \<open>path.resolve\<close> throws a \<open>TypeError\<close> when an argument is
  not a string.
\<close>

fun resolve :: "config_env \<Rightarrow> json \<Rightarrow> error + string" where
  "resolve env (JStr s) = Inr (path_resolve env s)"
| "resolve env _ = Inl TypeError"

text \<open>
  \<^verbatim>\<open>
  function resolveOutDir(tmpDir) {
    const tsconfig = json5.parse(fs.readFileSync(resolve('tsconfig.json'), 'utf-8'));
    if (!tsconfig || typeof tsconfig !== 'object' || tsconfig instanceof Array) {
      throw new Error('Invalid tsconfig.json file in project root');
    } else if (tsconfig.extends) {
      throw new Error('No support for "extends" option in tsconfig.json yet');
    } else if (!tsconfig.compilerOptions?.outDir) {
      throw new Error('The tsconfig.json file must have a "compilerOptions.outDir" option');
    } else {
      return resolve(tsconfig.compilerOptions.outDir);
    }
  }
  \<close>
\<close>

definition outDir_option :: "json \<Rightarrow> json option" where
  "outDir_option tsconfig = optional_get (get tsconfig ''compilerOptions'') ''outDir''"

definition resolveOutDir :: "config_env \<Rightarrow> error + string" where
  "resolveOutDir env =
     (case tsconfig_json env of
        None \<Rightarrow> Inl (SystemError ENOENT)
      | Some text \<Rightarrow>
          (case json5_parse env text of
             None \<Rightarrow> Inl SyntaxError
           | Some tsconfig \<Rightarrow>
               if \<not> truthy (Some tsconfig) \<or> \<not> typeof_object tsconfig \<or> instanceof_Array tsconfig
               then Inl (Error InvalidTsconfig)
               else if truthy (get tsconfig ''extends'')
               then Inl (Error ExtendsUnsupported)
               else if \<not> truthy (outDir_option tsconfig)
               then Inl (Error OutDirRequired)
               else (case outDir_option tsconfig of
                       Some v \<Rightarrow> resolve env v
                     | None \<Rightarrow> Inl TypeError)))"


section \<open>The build script: file system\<close>

text \<open>
  The script works in two directories: the staging directory
  \<open>join(os.tmpdir(), 'typescript-partial-lib-dom')\<close> and the output directory that
  \<open>resolveOutDir\<close> returns. They are modelled as two separate trees (volumes \<open>Tmp\<close> and
  \<open>Out\<close>); a path is a volume and the names below its root, so that \<open>(Tmp, [])\<close> is the
  staging directory itself. \<open>None\<close> for a root says that the directory does not exist.
  A directory lists its entries in the order \<open>fs.readdirSync\<close> returns them.
\<close>

datatype node = File string | Dir "(string \<times> node) list"

datatype volume = Tmp | Out

type_synonym path = "volume \<times> string list"

record filesystem =
  tmp_root :: "node option"
  out_root :: "node option"

text \<open>\<open>path.join(dir, name)\<close> for a name without separators.\<close>

definition join :: "path \<Rightarrow> string \<Rightarrow> path" where
  "join p nm = (fst p, snd p @ [nm])"

fun vol :: "filesystem \<Rightarrow> volume \<Rightarrow> node option" where
  "vol fs Tmp = tmp_root fs"
| "vol fs Out = out_root fs"

fun set_vol :: "volume \<Rightarrow> node option \<Rightarrow> filesystem \<Rightarrow> filesystem" where
  "set_vol Tmp r fs = fs\<lparr>tmp_root := r\<rparr>"
| "set_vol Out r fs = fs\<lparr>out_root := r\<rparr>"

text \<open>
  What is at a path: \<open>ENOENT\<close> when a name on the way is missing, \<open>ENOTDIR\<close> when the path
  goes through a file.
\<close>

fun stat_node :: "node option \<Rightarrow> string list \<Rightarrow> errno + node" where
  "stat_node None xs = Inl ENOENT"
| "stat_node (Some n) [] = Inr n"
| "stat_node (Some (File s)) (x # xs) = Inl ENOTDIR"
| "stat_node (Some (Dir es)) (x # xs) = stat_node (map_of es x) xs"

fun set_entry :: "string \<Rightarrow> node option \<Rightarrow> (string \<times> node) list \<Rightarrow> (string \<times> node) list" where
  "set_entry x None es = AList.delete x es"
| "set_entry x (Some c) es = AList.update x c es"

text \<open>
  Replacing (or, with \<open>None\<close>, deleting) what is at a path whose parent directory exists.
\<close>

fun put_node :: "string list \<Rightarrow> node option \<Rightarrow> node option \<Rightarrow> errno + node option" where
  "put_node [] v r = Inr v"
| "put_node (x # xs) v None = Inl ENOENT"
| "put_node (x # xs) v (Some (File s)) = Inl ENOTDIR"
| "put_node (x # xs) v (Some (Dir es)) =
     (case put_node xs v (map_of es x) of
        Inl e \<Rightarrow> Inl e
      | Inr c \<Rightarrow> Inr (Some (Dir (set_entry x c es))))"

text \<open>
  \<open>fs.mkdirSync(p, { recursive: true })\<close>: creates the missing directories on the way,
  does nothing when the directory exists, and throws when a file is in the way.
\<close>

fun mkdir_node :: "string list \<Rightarrow> node option \<Rightarrow> errno + node option" where
  "mkdir_node [] None = Inr (Some (Dir []))"
| "mkdir_node [] (Some (Dir es)) = Inr (Some (Dir es))"
| "mkdir_node [] (Some (File s)) = Inl EEXIST"
| "mkdir_node (x # xs) None =
     (case mkdir_node xs None of
        Inl e \<Rightarrow> Inl e
      | Inr c \<Rightarrow> Inr (Some (Dir (set_entry x c []))))"
| "mkdir_node (x # xs) (Some (File s)) = Inl ENOTDIR"
| "mkdir_node (x # xs) (Some (Dir es)) =
     (case mkdir_node xs (map_of es x) of
        Inl e \<Rightarrow> Inl e
      | Inr c \<Rightarrow> Inr (Some (Dir (set_entry x c es))))"

definition stat :: "path \<Rightarrow> filesystem \<Rightarrow> errno + node" where
  "stat p fs = stat_node (vol fs (fst p)) (snd p)"

definition put :: "path \<Rightarrow> node option \<Rightarrow> filesystem \<Rightarrow> errno + filesystem" where
  "put p v fs =
     (case put_node (snd p) v (vol fs (fst p)) of
        Inl e \<Rightarrow> Inl e
      | Inr r \<Rightarrow> Inr (set_vol (fst p) r fs))"

definition mkdirSync :: "path \<Rightarrow> filesystem \<Rightarrow> errno + filesystem" where
  "mkdirSync p fs =
     (case mkdir_node (snd p) (vol fs (fst p)) of
        Inl e \<Rightarrow> Inl e
      | Inr r \<Rightarrow> Inr (set_vol (fst p) r fs))"

text \<open>
  \<open>fs.readdirSync(p, { withFileTypes: true })\<close> returns one \<open>Dirent\<close> per entry, with its
  \<open>name\<close> and what \<open>isDirectory()\<close> answers.
\<close>

datatype dirent = Dirent string bool

fun entry_name :: "dirent \<Rightarrow> string" where
  "entry_name (Dirent nm d) = nm"

fun isDirectory :: "dirent \<Rightarrow> bool" where
  "isDirectory (Dirent nm d) = d"

fun is_dir :: "node \<Rightarrow> bool" where
  "is_dir (Dir es) = True"
| "is_dir (File s) = False"

definition readdirSync :: "path \<Rightarrow> filesystem \<Rightarrow> errno + dirent list" where
  "readdirSync p fs =
     (case stat p fs of
        Inl e \<Rightarrow> Inl e
      | Inr (File s) \<Rightarrow> Inl ENOTDIR
      | Inr (Dir es) \<Rightarrow> Inr (map (\<lambda>(nm, c). Dirent nm (is_dir c)) es))"

definition readFile :: "path \<Rightarrow> filesystem \<Rightarrow> errno + string" where
  "readFile p fs =
     (case stat p fs of
        Inl e \<Rightarrow> Inl e
      | Inr (Dir es) \<Rightarrow> Inl EISDIR
      | Inr (File s) \<Rightarrow> Inr s)"

text \<open>
  \<open>fs.writeFileSync(p, content)\<close> creates or overwrites a file; the directory that is to
  hold it must exist.
\<close>

definition writeFileSync :: "path \<Rightarrow> string \<Rightarrow> filesystem \<Rightarrow> errno + filesystem" where
  "writeFileSync p content fs =
     (case stat p fs of
        Inr (Dir es) \<Rightarrow> Inl EISDIR
      | _ \<Rightarrow> put p (Some (File content)) fs)"

text \<open>\<open>fs.rmSync(p, { recursive: true })\<close> throws when nothing is at the path.\<close>

definition rmSync :: "path \<Rightarrow> filesystem \<Rightarrow> errno + filesystem" where
  "rmSync p fs =
     (case stat p fs of
        Inl e \<Rightarrow> Inl e
      | Inr n \<Rightarrow> put p None fs)"


section \<open>The build script: the normalizer\<close>

text \<open>
  \<^verbatim>\<open>
  function ignoreError(fn) {
    try {
      fn()
    } catch (error) {}
  }

  function remove(...path) {
    ignoreError(() => fs.rmSync(join(...path), { recursive: true }));
  }

  function empty(path) {
    for (const entry of fs.readdirSync(path)) {
      remove(join(path, entry));
    }
  }
  \<close>
  An error of \<open>fs.rmSync\<close> leaves the file system as it was. The function \<open>empty\<close> is
  \<open>empty_dir\<close> here.
\<close>

definition ignoreError :: "(filesystem \<Rightarrow> errno + filesystem) \<Rightarrow> filesystem \<Rightarrow> filesystem" where
  "ignoreError f fs = (case f fs of Inl e \<Rightarrow> fs | Inr fs' \<Rightarrow> fs')"

definition remove :: "path \<Rightarrow> filesystem \<Rightarrow> filesystem" where
  "remove p = ignoreError (rmSync p)"

definition empty_dir :: "path \<Rightarrow> filesystem \<Rightarrow> errno + filesystem" where
  "empty_dir p fs =
     (case readdirSync p fs of
        Inl e \<Rightarrow> Inl e
      | Inr entries \<Rightarrow> Inr (fold (\<lambda>entry. remove (join p (entry_name entry))) entries fs))"

text \<open>The test \<open>/\.(js|d\.ts)$/.test(entry.name)\<close>: the name ends in \<open>.js\<close> or \<open>.d.ts\<close>.\<close>

definition ends_with :: "string \<Rightarrow> string \<Rightarrow> bool" where
  "ends_with suffix s =
     (length suffix \<le> length s \<and> drop (length s - length suffix) s = suffix)"

definition qualifies :: "string \<Rightarrow> bool" where
  "qualifies nm = (ends_with ''.js'' nm \<or> ends_with ''.d.ts'' nm)"

text \<open>
  \<^verbatim>\<open>
  function processFile(tmpDir, outDir, filename, license) {
    return new Promise((resolve, reject) => {
      const readStream = fs.createReadStream(join(tmpDir, filename), 'utf-8')
      const writeStream = fs.createWriteStream(join(outDir, filename), 'utf-8')
      writeStream.write(license);
      readStream.pipe(writeStream);
      writeStream.on('error', reject);
      writeStream.on('finish', resolve);
    });
  }
  \<close>
  The two streams are taken as one step, from the call to the moment the promise settles:
  the destination (a file other than the source) then holds the license followed by the
  content of the source. An error of the write stream rejects the promise. The read
  stream has no \<open>error\<close> listener: its error is an uncaught exception, and the promise
  never settles.
\<close>

datatype stream_end = Finish filesystem | WriteError errno | ReadError errno

definition processFile :: "path \<Rightarrow> path \<Rightarrow> string \<Rightarrow> string \<Rightarrow> filesystem \<Rightarrow> stream_end" where
  "processFile tmpDir outDir filename license fs =
     (case readFile (join tmpDir filename) fs of
        Inl e \<Rightarrow> ReadError e
      | Inr content \<Rightarrow>
          (case writeFileSync (join outDir filename) (license @ content) fs of
             Inl e \<Rightarrow> WriteError e
           | Inr fs' \<Rightarrow> Finish fs'))"

text \<open>
  \<^verbatim>\<open>
  async function processFiles(tmpDir, outDir, license) {
    let outDirCreated = false;
    for (const entry of fs.readdirSync(tmpDir, { withFileTypes: true })) {
      if (entry.isDirectory()) {
        outDirCreated = processFiles(join(tmpDir, entry.name), join(outDir, entry.name), license) || outDirCreated;
      } else {
        if (/\.(js|d\.ts)$/.test(entry.name)) {
          if (!outDirCreated) {
            fs.mkdirSync(tmpDir, { recursive: true });
          }
          const outFile = join(outDir, entry.name);
          fs.writeFileSync(outFile, license, 'utf-8');
          await processFile(tmpDir, outDir, entry.name, license);
        }
        remove(tmpDir, entry.name);
      }
    }
    remove(tmpDir);
  }
  \<close>
  A call of an \<open>async\<close> function runs its body up to the first \<open>await\<close> and returns a
  promise; an exception thrown on the way rejects that promise. The state of a promise:
  \<open>Resolved\<close>, \<open>Rejected\<close> with the error, or still \<open>Pending\<close>; \<open>StreamCrash\<close> is
  the read stream's uncaught error, after which the promise stays unsettled.

  The recursive call is not awaited and its promise is only tested for truthiness (a
  promise is an object, so \<open>outDirCreated\<close> is truthy from then on). The model follows
  that: the flag \<open>awaited\<close> says whether somebody waits for the promise of this call. The
  call that the script makes is followed until its promise settles, each
  \<open>await processFile(..)\<close> being one step. A nested call is run up to its first \<open>await\<close>;
  its promise goes to the list \<open>orphans\<close> of promises that nobody holds, in the state it
  has when control returns to the caller (what a nested call that is \<open>Pending\<close> does
  later is not followed; in a run of the script no nested call is left pending, see
  \<open>script_walk_settles\<close>).

  The depth of the recursion is bounded by the first argument; \<open>None\<close> says that the
  bound was too small. A bound above the height of the staging tree is enough
  (\<open>processFiles_returns\<close>), and a larger bound gives the same result
  (\<open>recursion_bound_mono\<close>).
\<close>

datatype outcome = Resolved | Rejected error | Pending | StreamCrash errno

record walked =
  result :: outcome
  orphans :: "outcome list"
  fs_after :: filesystem

fun processFiles ::
    "nat \<Rightarrow> bool \<Rightarrow> path \<Rightarrow> path \<Rightarrow> string \<Rightarrow> filesystem \<Rightarrow> walked option"
and for_entries ::
    "nat \<Rightarrow> bool \<Rightarrow> path \<Rightarrow> path \<Rightarrow> string \<Rightarrow> dirent list \<Rightarrow> bool \<Rightarrow> outcome list
       \<Rightarrow> filesystem \<Rightarrow> walked option"
where
  "processFiles 0 awaited tmpDir outDir license fs = None"
| "processFiles (Suc n) awaited tmpDir outDir license fs =
     (case readdirSync tmpDir fs of
        Inl e \<Rightarrow> Some \<lparr>result = Rejected (SystemError e), orphans = [], fs_after = fs\<rparr>
      | Inr entries \<Rightarrow> for_entries n awaited tmpDir outDir license entries False [] fs)"
| "for_entries n awaited tmpDir outDir license [] outDirCreated orph fs =
     Some \<lparr>result = Resolved, orphans = orph, fs_after = remove tmpDir fs\<rparr>"
| "for_entries n awaited tmpDir outDir license (entry # rest) outDirCreated orph fs =
     (if isDirectory entry then
        (case processFiles n False (join tmpDir (entry_name entry))
                (join outDir (entry_name entry)) license fs of
           None \<Rightarrow> None
         | Some w \<Rightarrow>
             for_entries n awaited tmpDir outDir license rest True
               (orph @ result w # orphans w) (fs_after w))
      else if qualifies (entry_name entry) then
        (case (if outDirCreated then Inr fs else mkdirSync tmpDir fs) of
           Inl e \<Rightarrow> Some \<lparr>result = Rejected (SystemError e), orphans = orph, fs_after = fs\<rparr>
         | Inr fs1 \<Rightarrow>
             (case writeFileSync (join outDir (entry_name entry)) license fs1 of
                Inl e \<Rightarrow>
                  Some \<lparr>result = Rejected (SystemError e), orphans = orph, fs_after = fs1\<rparr>
              | Inr fs2 \<Rightarrow>
                  if \<not> awaited then Some \<lparr>result = Pending, orphans = orph, fs_after = fs2\<rparr>
                  else
                    (case processFile tmpDir outDir (entry_name entry) license fs2 of
                       ReadError e \<Rightarrow>
                         Some \<lparr>result = StreamCrash e, orphans = orph, fs_after = fs2\<rparr>
                     | WriteError e \<Rightarrow>
                         Some \<lparr>result = Rejected (SystemError e), orphans = orph,
                                 fs_after = fs2\<rparr>
                     | Finish fs3 \<Rightarrow>
                         for_entries n awaited tmpDir outDir license rest outDirCreated orph
                           (remove (join tmpDir (entry_name entry)) fs3))))
      else
        for_entries n awaited tmpDir outDir license rest outDirCreated orph
          (remove (join tmpDir (entry_name entry)) fs))"


section \<open>The build script: the run\<close>

text \<open>
  What the script needs from outside the two directories: the configuration, the
  compiler, and the text of \<open>LICENSE.txt\<close> (\<open>None\<close> when the file cannot be read). The
  compiler \<open>npx tsc --outDir tmpDir\<close> is a function of what it finds at the staging
  directory: it returns what it leaves there and the \<open>status\<close> of \<open>spawnSync\<close> (\<open>None\<close>
  for \<open>null\<close>, when the process ended on a signal).
\<close>

record environment =
  config :: config_env
  compiler :: "node option \<Rightarrow> node option \<times> nat option"
  license_txt :: "string option"

text \<open>
  How the process ends: \<open>process.exit(status)\<close> in \<open>kill\<close>, after \<open>console.error\<close> of
  the given arguments; an exception that nothing catches; the end of the script with
  nothing left to wait for; or the end of the script with its promise still pending.
\<close>

datatype ending = Exited nat "error list" | Crashed error | Completed | Waiting

record run =
  ending :: ending
  unhandled :: "outcome list"
  final_fs :: filesystem

text \<open>
  \<^verbatim>\<open>
  const tmpDir = join(os.tmpdir(), 'typescript-partial-lib-dom');
  const outDir = resolveOutDir();
  \<close>
\<close>

definition tmpDir :: path where
  "tmpDir = (Tmp, [])"

definition outDir :: path where
  "outDir = (Out, [])"

text \<open>
  \<^verbatim>\<open>
  function kill(status, ...args) {
    if (args.length) {
      console.error(...args);
    }
    remove(tmpDir);
    process.exit(status);
  }
  \<close>
\<close>

definition kill :: "nat \<Rightarrow> error list \<Rightarrow> filesystem \<Rightarrow> ending \<times> filesystem" where
  "kill status args fs = (Exited status args, remove tmpDir fs)"

text \<open>
  \<^verbatim>\<open>
  async function tsc(tmpDir) {
    const npx = /^win\d+$/.test(process.platform) ? 'npx.cmd' : 'npx';
    const { status } = cp.spawnSync(npx, ['tsc', '--outDir', tmpDir], { stdio: 'inherit' });
    if (status) {
      kill(status);
    }
  }
  \<close>
  The body has no \<open>await\<close>: the call runs to its end, or to \<open>process.exit\<close>.
\<close>

definition node_at :: "path \<Rightarrow> filesystem \<Rightarrow> node option" where
  "node_at p fs = (case stat p fs of Inl e \<Rightarrow> None | Inr n \<Rightarrow> Some n)"

definition spawnSync_tsc :: "environment \<Rightarrow> path \<Rightarrow> filesystem \<Rightarrow> nat option \<times> filesystem" where
  "spawnSync_tsc env dir fs =
     (case compiler env (node_at dir fs) of
        (emitted, status) \<Rightarrow>
          (status, case put dir emitted fs of Inl e \<Rightarrow> fs | Inr fs' \<Rightarrow> fs'))"

definition tsc :: "environment \<Rightarrow> path \<Rightarrow> filesystem \<Rightarrow> ending option \<times> filesystem" where
  "tsc env dir fs =
     (case spawnSync_tsc env dir fs of
        (Some status, fs') \<Rightarrow>
          if status \<noteq> 0 then (case kill status [] fs' of (e, fs'') \<Rightarrow> (Some e, fs''))
          else (None, fs')
      | (None, fs') \<Rightarrow> (None, fs'))"

text \<open>
  \<^verbatim>\<open>
  const license = `/*! *****************************************************************************
  ${fs.readFileSync(resolve('LICENSE.txt'), 'utf-8').replace(/\n$/, '')}
  ***************************************************************************** */
  `;
  \<close>
  Each row of asterisks has 77 of them.
\<close>

definition strip_final_newline :: "string \<Rightarrow> string" where
  "strip_final_newline s = (if s \<noteq> [] \<and> last s = CHR 0x0A then butlast s else s)"

definition license_header :: "string \<Rightarrow> string" where
  "license_header txt =
     ''/*! '' @ replicate 77 CHR ''*'' @ [CHR 0x0A]
     @ strip_final_newline txt @ [CHR 0x0A]
     @ replicate 77 CHR ''*'' @ '' */'' @ [CHR 0x0A]"

text \<open>
  The last statement of the script:
  \<^verbatim>\<open>
  processFiles(tmpDir, outDir, license).catch((error) => kill(1, error));
  \<close>
\<close>

definition normalize :: "nat \<Rightarrow> string \<Rightarrow> filesystem \<Rightarrow> run option" where
  "normalize n license fs =
     (case processFiles n True tmpDir outDir license fs of
        None \<Rightarrow> None
      | Some w \<Rightarrow>
          Some (case result w of
                  Rejected e \<Rightarrow>
                    (case kill 1 [e] (fs_after w) of
                       (e', fs') \<Rightarrow> \<lparr>ending = e', unhandled = orphans w, final_fs = fs'\<rparr>)
                | Resolved \<Rightarrow>
                    \<lparr>ending = Completed, unhandled = orphans w, final_fs = fs_after w\<rparr>
                | StreamCrash e \<Rightarrow>
                    \<lparr>ending = Crashed (SystemError e), unhandled = orphans w,
                       final_fs = fs_after w\<rparr>
                | Pending \<Rightarrow>
                    \<lparr>ending = Waiting, unhandled = orphans w, final_fs = fs_after w\<rparr>))"

text \<open>
  The body of the script. An exception outside \<open>processFiles\<close> is caught by nothing.
  \<^verbatim>\<open>
  fs.mkdirSync(tmpDir, { recursive: true });
  empty(tmpDir);
  const outDir = resolveOutDir();
  tsc(tmpDir);
  const license = ...;
  empty(outDir);
  processFiles(tmpDir, outDir, license).catch((error) => kill(1, error));
  \<close>
\<close>

definition crash :: "error \<Rightarrow> filesystem \<Rightarrow> run" where
  "crash e fs = \<lparr>ending = Crashed e, unhandled = [], final_fs = fs\<rparr>"

definition build :: "nat \<Rightarrow> environment \<Rightarrow> filesystem \<Rightarrow> run option" where
  "build n env fs0 =
     (case mkdirSync tmpDir fs0 of
        Inl e \<Rightarrow> Some (crash (SystemError e) fs0)
      | Inr fs1 \<Rightarrow>
     (case empty_dir tmpDir fs1 of
        Inl e \<Rightarrow> Some (crash (SystemError e) fs1)
      | Inr fs2 \<Rightarrow>
     (case resolveOutDir (config env) of
        Inl e \<Rightarrow> Some (crash e fs2)
      | Inr resolved \<Rightarrow>
     (case tsc env tmpDir fs2 of
        (Some e, fs3) \<Rightarrow> Some \<lparr>ending = e, unhandled = [], final_fs = fs3\<rparr>
      | (None, fs3) \<Rightarrow>
     (case license_txt env of
        None \<Rightarrow> Some (crash (SystemError ENOENT) fs3)
      | Some txt \<Rightarrow>
     (case empty_dir outDir fs3 of
        Inl e \<Rightarrow> Some (crash (SystemError e) fs3)
      | Inr fs4 \<Rightarrow> normalize n (license_header txt) fs4))))))"

text \<open>
  The exit status of the process. The script sets it only through \<open>process.exit\<close>;
  otherwise it is the one of Node.js: 1 after an uncaught exception, 0 when the script
  ends with nothing pending. A rejected promise that nobody handles ends the process
  like an uncaught exception or is only reported, by the version and the options of
  the runtime: \<open>throw_unhandled\<close> says which. (Where it ends the process, it does so
  when the rejection is noticed; \<open>final_fs\<close> is the state that the walk reaches when
  it is left to go on.)
\<close>

fun is_rejected :: "outcome \<Rightarrow> bool" where
  "is_rejected (Rejected e) = True"
| "is_rejected Resolved = False"
| "is_rejected Pending = False"
| "is_rejected (StreamCrash e) = False"

definition exit_status :: "bool \<Rightarrow> run \<Rightarrow> nat option" where
  "exit_status throw_unhandled r =
     (case ending r of
        Exited status printed \<Rightarrow> Some status
      | Crashed e \<Rightarrow> Some 1
      | Completed \<Rightarrow>
          if throw_unhandled \<and> list_ex is_rejected (unhandled r) then Some 1 else Some 0
      | Waiting \<Rightarrow> None)"


section \<open>Auxiliary notions\<close>

text \<open>
  When the script gets as far as the walk: the staging path is not taken by a file, the
  configuration gives an output directory, the compiler does not report a failure, the
  license can be read and the output directory exists. The walk then starts from the
  staging directory as the compiler left it and from an empty output directory.
\<close>

definition reaches_walk :: "environment \<Rightarrow> filesystem \<Rightarrow> bool" where
  "reaches_walk env fs \<longleftrightarrow>
     (\<forall>s. tmp_root fs \<noteq> Some (File s))
     \<and> (\<exists>d. resolveOutDir (config env) = Inr d)
     \<and> (snd (compiler env (Some (Dir []))) = None \<or> snd (compiler env (Some (Dir []))) = Some 0)
     \<and> (\<exists>txt. license_txt env = Some txt)
     \<and> (\<exists>es. out_root fs = Some (Dir es))"

definition walk_input :: "environment \<Rightarrow> filesystem" where
  "walk_input env = \<lparr>tmp_root = fst (compiler env (Some (Dir []))), out_root = Some (Dir [])\<rparr>"

text \<open>
  The length of the longest path below a node, and below the staging directory: the
  depth that the recursion of \<open>processFiles\<close> can reach.
\<close>

fun height :: "node \<Rightarrow> nat" where
  "height (File s) = 0"
| "height (Dir es) = fold max (map (\<lambda>(k, c). Suc (height c)) es) 0"

fun height_opt :: "node option \<Rightarrow> nat" where
  "height_opt None = 0"
| "height_opt (Some n) = height n"

definition staging_height :: "filesystem \<Rightarrow> nat" where
  "staging_height fs = height_opt (tmp_root fs)"

text \<open>
  Three notions for what the walk leaves behind. An output directory is \<open>flat\<close> when
  it holds files only. \<open>frame x\<close> relates two states of a directory that differ at most
  in the entry \<open>x\<close>. \<open>copied license es\<close> lists, for the entries \<open>es\<close> of a directory,
  the files whose name qualifies, each with the license in front of its content.
\<close>

fun flat :: "node option \<Rightarrow> bool" where
  "flat (Some (Dir es)) = list_all (\<lambda>(k, c). \<not> is_dir c) es"
| "flat (Some (File s)) = False"
| "flat None = False"

definition frame :: "string \<Rightarrow> node option \<Rightarrow> node option \<Rightarrow> bool" where
  "frame x r r' \<longleftrightarrow>
     (\<exists>ts ts'. r = Some (Dir ts) \<and> r' = Some (Dir ts') \<and> (\<forall>y. y \<noteq> x \<longrightarrow> map_of ts' y = map_of ts y))"

fun copied :: "string \<Rightarrow> (string \<times> node) list \<Rightarrow> (string \<times> node) list" where
  "copied lic [] = []"
| "copied lic ((nm, File s) # es) =
     (if qualifies nm then (nm, File (lic @ s)) # copied lic es else copied lic es)"
| "copied lic ((nm, Dir ds) # es) = copied lic es"

text \<open>
  Surroundings used in the examples: a configuration whose \<open>compilerOptions.outDir\<close> is
  \<open>lib\<close>, one where it is the number 5, and a compiler that leaves a given tree at the
  staging directory and ends with a given status.
\<close>

definition config_lib :: config_env where
  "config_lib =
     \<lparr> tsconfig_json = Some ''{ compilerOptions: { outDir: 'lib' } }'',
       json5_parse = (\<lambda>src. Some (JObj [(''compilerOptions'', JObj [(''outDir'', JStr ''lib'')])])),
       path_resolve = (\<lambda>s. ''/repo/'' @ s) \<rparr>"



definition leaves :: "node option \<Rightarrow> nat option \<Rightarrow> node option \<Rightarrow> node option \<times> nat option" where
  "leaves tree status found = (tree, status)"


section \<open>Properties of the browser helpers\<close>

lemma onBrowserOrWarn_value:
  "fst (onBrowserOrWarn window f fallbackValue) = onBrowser window f fallbackValue"
  by (simp add: onBrowserOrWarn_def onBrowser_def Let_def)

text \<open>
  C8. \<open>onBrowserOrThrow(fn)\<close> throws (an \<open>EnvironmentError\<close>, built from \<open>fn\<close>) exactly when
  the global \<open>window\<close> is undefined, and when \<open>window\<close> is defined the outcome is exactly
  \<open>fn(window)\<close>, with nothing thrown by \<open>onBrowserOrThrow\<close> itself.
\<close>

theorem onBrowserOrThrow_iff:
  "(isl (onBrowserOrThrow window f) \<longleftrightarrow> window = None)
   \<and> onBrowserOrThrow None f = Inl (EnvironmentError_new f)
   \<and> onBrowserOrThrow (Some w) f = Inr (fn_call f w)"
  by (cases window) (simp_all add: onBrowserOrThrow_def)

text \<open>
  C9. Outside of a browser \<open>onBrowserOrWarn(fn, fallbackValue)\<close> returns what
  \<open>onBrowser(fn, fallbackValue)\<close> returns (see \<open>onBrowserOrWarn_value\<close> for both cases), and
  the one call it makes on the console is \<open>console.error\<close>: \<open>console.warn\<close> is never
  called, in a browser or outside of one.
\<close>

theorem onBrowserOrWarn_console_error:
  "onBrowserOrWarn None f fallbackValue
     = (onBrowser None f fallbackValue, [ConsoleError (EnvironmentError_new f)])
   \<and> ConsoleWarn e \<notin> set (snd (onBrowserOrWarn window f fallbackValue))"
  by (simp add: onBrowserOrWarn_def onBrowser_def)

text \<open>
  C10. The error built from \<open>fn\<close> keeps \<open>fn\<close> in its field \<open>fn\<close>, is named
  \<open>EnvironmentError\<close>, and its message starts with \<open>Function <fn.name>\<close> when the name of
  \<open>fn\<close> is not empty and with \<open>Anonymous function\<close> when it is.
\<close>

theorem EnvironmentError_fields:
  "fn (EnvironmentError_new f) = f
   \<and> name (EnvironmentError_new f) = ''EnvironmentError''
   \<and> message (EnvironmentError_new f) =
       (if fn_name f = [] then ''Anonymous function executed on wrong environment, expected browser''
        else ''Function '' @ fn_name f @ '' executed on wrong environment, expected browser'')"
  by (simp add: EnvironmentError_new_def)


section \<open>The output directory resolver\<close>

lemma resolve_Inr_iff: "resolve env v = Inr p \<longleftrightarrow> (\<exists>s. v = JStr s \<and> p = path_resolve env s)"
  by (cases v) auto

lemma object_iff:
  "(truthy (Some v) \<and> typeof_object v \<and> \<not> instanceof_Array v) \<longleftrightarrow> (\<exists>kvs. v = JObj kvs)"
  by (cases v) auto






section \<open>The walk on examples\<close>

lemmas fs_eval =
  tmpDir_def outDir_def join_def readdirSync_def stat_def put_def mkdirSync_def
  writeFileSync_def rmSync_def remove_def ignoreError_def processFile_def readFile_def
  qualifies_def ends_with_def

lemmas run_eval =
  build_def normalize_def tsc_def spawnSync_tsc_def node_at_def kill_def crash_def
  empty_dir_def resolveOutDir_def outDir_option_def exit_status_def config_lib_def
  leaves_def

text \<open>
  C1. The compiler left \<open>index.js\<close>, \<open>notes.txt\<close> and \<open>lib/util.js\<close> in the staging
  directory and the output directory is empty. After the walk the output directory holds
  \<open>index.js\<close> with the license in front of its content and nothing for \<open>notes.txt\<close>, but
  nothing for \<open>lib/util.js\<close> either, although its name qualifies.
\<close>

theorem processFiles_drops_nested_file:
  "processFiles 2 True tmpDir outDir ''/* L */''
     \<lparr>tmp_root = Some (Dir [(''index.js'', File ''A''), (''notes.txt'', File ''N''),
                           (''lib'', Dir [(''util.js'', File ''B'')])]),
      out_root = Some (Dir [])\<rparr>
   = Some \<lparr>result = Resolved, orphans = [Rejected (SystemError ENOENT)],
           fs_after = \<lparr>tmp_root = None,
                        out_root = Some (Dir [(''index.js'', File ''/* L */A'')])\<rparr>\<rparr>
   \<and> qualifies ''util.js''"
  by (simp add: numeral_2_eq_2 fs_eval)

text \<open>
  C2. With \<open>lib/util.d.ts\<close> in the staging directory, the directory that the nested call
  makes sure of is the staging one (\<open>fs.mkdirSync(tmpDir, ..)\<close> changes nothing), the
  write of the license to \<open>lib/util.d.ts\<close> under the output directory fails, and after the
  walk there is no \<open>lib\<close> under the output directory.
\<close>

theorem processFiles_creates_no_subdirectory:
  "mkdirSync (join tmpDir ''lib'')
       \<lparr>tmp_root = Some (Dir [(''lib'', Dir [(''util.d.ts'', File ''D'')])]),
        out_root = Some (Dir [])\<rparr>
     = Inr \<lparr>tmp_root = Some (Dir [(''lib'', Dir [(''util.d.ts'', File ''D'')])]),
            out_root = Some (Dir [])\<rparr>
   \<and> writeFileSync (join (join outDir ''lib'') ''util.d.ts'') ''/* L */''
       \<lparr>tmp_root = Some (Dir [(''lib'', Dir [(''util.d.ts'', File ''D'')])]),
        out_root = Some (Dir [])\<rparr>
     = Inl ENOENT
   \<and> processFiles 2 True tmpDir outDir ''/* L */''
       \<lparr>tmp_root = Some (Dir [(''lib'', Dir [(''util.d.ts'', File ''D'')])]),
        out_root = Some (Dir [])\<rparr>
     = Some \<lparr>result = Resolved, orphans = [Rejected (SystemError ENOENT)],
             fs_after = \<lparr>tmp_root = None, out_root = Some (Dir [])\<rparr>\<rparr>
   \<and> stat (join outDir ''lib'') \<lparr>tmp_root = None, out_root = Some (Dir [])\<rparr> = Inl ENOENT"
  by (simp add: numeral_2_eq_2 fs_eval)

text \<open>
  C3. With \<open>a/x.js\<close> and \<open>b/c/y.d.ts\<close> in the staging directory, the promise of the walk
  resolves although the writes for both files failed: the promises of the nested calls
  for \<open>a\<close> and for \<open>b/c\<close> are rejected (the one for \<open>b\<close> resolves, for the same reason),
  nobody holds them, and the output directory stays empty.
\<close>

theorem processFiles_resolves_without_nested_writes:
  "processFiles 3 True tmpDir outDir ''/* L */''
     \<lparr>tmp_root = Some (Dir [(''a'', Dir [(''x.js'', File ''X'')]),
                           (''b'', Dir [(''c'', Dir [(''y.d.ts'', File ''Y'')])])]),
      out_root = Some (Dir [])\<rparr>
   = Some \<lparr>result = Resolved,
           orphans = [Rejected (SystemError ENOENT), Resolved, Rejected (SystemError ENOENT)],
           fs_after = \<lparr>tmp_root = None, out_root = Some (Dir [])\<rparr>\<rparr>"
  by (simp add: numeral_3_eq_3 fs_eval)

text \<open>
  Called on an output directory that has the subdirectory already, the walk resolves
  while the nested call is still waiting for its first file: only the license is written.
\<close>

lemma processFiles_resolves_with_pending_write:
  "processFiles 2 True tmpDir outDir ''/* L */''
     \<lparr>tmp_root = Some (Dir [(''lib'', Dir [(''util.js'', File ''B'')])]),
      out_root = Some (Dir [(''lib'', Dir [])])\<rparr>
   = Some \<lparr>result = Resolved, orphans = [Pending],
           fs_after = \<lparr>tmp_root = None,
                        out_root = Some (Dir [(''lib'', Dir [(''util.js'', File ''/* L */'')])])\<rparr>\<rparr>"
  by (simp add: numeral_2_eq_2 fs_eval)

text \<open>
  Every deletion of the script goes through \<open>remove\<close>, which cannot fail: an error of
  \<open>fs.rmSync\<close> is dropped.
\<close>

lemma remove_swallows: "rmSync p fs = Inl e \<Longrightarrow> remove p fs = fs"
  by (simp add: remove_def ignoreError_def)

text \<open>
  C4. The compiler left \<open>lib/index.js\<close>. The write under the output directory fails with
  \<open>ENOENT\<close>; the error rejects the promise of the nested call only, the walk resolves and
  \<open>kill\<close> is not called. The script ends normally, and the exit status is 0 unless the
  runtime turns the unhandled rejection into an exception.
\<close>

theorem build_nested_write_error_not_propagated:
  "build 2 \<lparr>config = config_lib,
            compiler = leaves (Some (Dir [(''lib'', Dir [(''index.js'', File ''A'')])])) (Some 0),
            license_txt = Some ''MIT''\<rparr>
     \<lparr>tmp_root = None, out_root = Some (Dir [])\<rparr>
   = Some \<lparr>ending = Completed, unhandled = [Rejected (SystemError ENOENT)],
           final_fs = \<lparr>tmp_root = None, out_root = Some (Dir [])\<rparr>\<rparr>
   \<and> exit_status False
        \<lparr>ending = Completed, unhandled = [Rejected (SystemError ENOENT)],
         final_fs = \<lparr>tmp_root = None, out_root = Some (Dir [])\<rparr>\<rparr> = Some 0
   \<and> exit_status True
        \<lparr>ending = Completed, unhandled = [Rejected (SystemError ENOENT)],
         final_fs = \<lparr>tmp_root = None, out_root = Some (Dir [])\<rparr>\<rparr> = Some 1"
  by (simp add: numeral_2_eq_2 run_eval fs_eval)


section \<open>The run of the script\<close>

lemma remove_tmpDir: "remove tmpDir fs = fs\<lparr>tmp_root := None\<rparr>"
  by (cases "tmp_root fs")
     (simp_all add: remove_def ignoreError_def rmSync_def stat_def put_def tmpDir_def)

lemma mkdirSync_tmpDir:
  "mkdirSync tmpDir fs =
     (case tmp_root fs of
        None \<Rightarrow> Inr (fs\<lparr>tmp_root := Some (Dir [])\<rparr>)
      | Some (Dir es) \<Rightarrow> Inr fs
      | Some (File s) \<Rightarrow> Inl EEXIST)"
  by (simp add: mkdirSync_def tmpDir_def split: option.split node.split)

lemma set_vol_same: "vol fs v = r \<Longrightarrow> set_vol v r fs = fs"
  by (cases v) auto

lemma vol_set_vol: "vol (set_vol v r fs) v = r"
  by (cases v) auto

lemma remove_child:
  assumes "vol fs v = Some (Dir es)"
  shows "remove (join (v, []) nm) fs = set_vol v (Some (Dir (AList.delete nm es))) fs"
proof (cases "map_of es nm")
  case None
  then have "AList.delete nm es = es"
    by (simp add: map_of_eq_None_iff)
  with None assms show ?thesis
    by (simp add: remove_def ignoreError_def rmSync_def stat_def put_def join_def set_vol_same)
next
  case (Some c)
  with assms show ?thesis
    by (simp add: remove_def ignoreError_def rmSync_def stat_def put_def join_def)
qed

lemma set_vol_twice: "set_vol v r (set_vol v r' fs) = set_vol v r fs"
  by (cases v) auto

lemma filter_delete:
  "filter (\<lambda>(k, c). k \<notin> A) (AList.delete x es) = filter (\<lambda>(k, c). k \<notin> insert x A) es"
  by (induction es) auto

lemma fold_remove_children:
  "vol fs v = Some (Dir es) \<Longrightarrow>
   fold (\<lambda>entry. remove (join (v, []) (entry_name entry))) ds fs
     = set_vol v (Some (Dir (filter (\<lambda>(k, c). k \<notin> entry_name ` set ds) es))) fs"
proof (induction ds arbitrary: fs es)
  case Nil
  then show ?case by (simp add: set_vol_same)
next
  case (Cons d ds)
  let ?fs = "set_vol v (Some (Dir (AList.delete (entry_name d) es))) fs"
  have v: "vol ?fs v = Some (Dir (AList.delete (entry_name d) es))"
    by (rule vol_set_vol)
  have "fold (\<lambda>entry. remove (join (v, []) (entry_name entry))) (d # ds) fs
        = fold (\<lambda>entry. remove (join (v, []) (entry_name entry))) ds ?fs"
    using Cons.prems by (simp add: remove_child)
  also have "\<dots> = set_vol v (Some (Dir (filter (\<lambda>(k, c). k \<notin> entry_name ` set ds)
                        (AList.delete (entry_name d) es)))) ?fs"
    by (rule Cons.IH [OF v])
  also have "\<dots> = set_vol v (Some (Dir (filter (\<lambda>(k, c). k \<notin> entry_name ` set (d # ds)) es))) fs"
    by (simp add: filter_delete set_vol_twice)
  finally show ?case .
qed

lemma empty_root:
  "empty_dir (v, []) fs =
     (case vol fs v of
        None \<Rightarrow> Inl ENOENT
      | Some (File s) \<Rightarrow> Inl ENOTDIR
      | Some (Dir es) \<Rightarrow> Inr (set_vol v (Some (Dir [])) fs))"
proof (cases "vol fs v")
  case None
  then show ?thesis by (simp add: empty_dir_def readdirSync_def stat_def)
next
  case (Some n)
  show ?thesis
  proof (cases n)
    case (File s)
    with Some show ?thesis by (simp add: empty_dir_def readdirSync_def stat_def)
  next
    case (Dir es)
    have "filter (\<lambda>(k, c). k \<notin> entry_name ` set (map (\<lambda>(nm, c). Dirent nm (is_dir c)) es)) es = []"
      by (auto simp add: filter_empty_conv image_iff split_def intro!: bexI)
    with Some Dir show ?thesis
      by (simp add: empty_dir_def readdirSync_def stat_def fold_remove_children)
  qed
qed

lemma empty_tmpDir:
  "empty_dir tmpDir fs =
     (case tmp_root fs of
        None \<Rightarrow> Inl ENOENT
      | Some (File s) \<Rightarrow> Inl ENOTDIR
      | Some (Dir es) \<Rightarrow> Inr (fs\<lparr>tmp_root := Some (Dir [])\<rparr>))"
  using empty_root [of Tmp fs] by (simp add: tmpDir_def split: option.split node.split)

lemma empty_outDir:
  "empty_dir outDir fs =
     (case out_root fs of
        None \<Rightarrow> Inl ENOENT
      | Some (File s) \<Rightarrow> Inl ENOTDIR
      | Some (Dir es) \<Rightarrow> Inr (fs\<lparr>out_root := Some (Dir [])\<rparr>))"
  using empty_root [of Out fs] by (simp add: outDir_def split: option.split node.split)

lemma tsc_tmpDir:
  "tmp_root fs = Some n \<Longrightarrow>
   tsc env tmpDir fs =
     (case compiler env (Some n) of
        (emitted, status) \<Rightarrow>
          (case status of
             None \<Rightarrow> (None, fs\<lparr>tmp_root := emitted\<rparr>)
           | Some s \<Rightarrow>
               if s \<noteq> 0 then (Some (Exited s []), fs\<lparr>tmp_root := None\<rparr>)
               else (None, fs\<lparr>tmp_root := emitted\<rparr>)))"
  by (simp add: tsc_def spawnSync_tsc_def node_at_def stat_def put_def kill_def
        remove_tmpDir [unfolded tmpDir_def] tmpDir_def split: prod.split option.split)


lemma build_unfold:
  assumes "\<And>s. tmp_root fs \<noteq> Some (File s)"
  shows "build n env fs =
    (case resolveOutDir (config env) of
       Inl e \<Rightarrow> Some (crash e (fs\<lparr>tmp_root := Some (Dir [])\<rparr>))
     | Inr d \<Rightarrow>
        (case compiler env (Some (Dir [])) of
           (emitted, status) \<Rightarrow>
             (case (case status of None \<Rightarrow> None | Some s \<Rightarrow> if s \<noteq> 0 then Some s else None) of
                Some s \<Rightarrow> Some \<lparr>ending = Exited s [], unhandled = [],
                                 final_fs = fs\<lparr>tmp_root := None\<rparr>\<rparr>
              | None \<Rightarrow>
                 (case license_txt env of
                    None \<Rightarrow> Some (crash (SystemError ENOENT) (fs\<lparr>tmp_root := emitted\<rparr>))
                  | Some txt \<Rightarrow>
                     (case out_root fs of
                        None \<Rightarrow> Some (crash (SystemError ENOENT) (fs\<lparr>tmp_root := emitted\<rparr>))
                      | Some (File s) \<Rightarrow>
                          Some (crash (SystemError ENOTDIR) (fs\<lparr>tmp_root := emitted\<rparr>))
                      | Some (Dir es) \<Rightarrow>
                          normalize n (license_header txt)
                            (fs\<lparr>tmp_root := emitted, out_root := Some (Dir [])\<rparr>))))))"
proof -
  define fs2 where "fs2 = fs\<lparr>tmp_root := Some (Dir [])\<rparr>"
  have "\<exists>fs1. mkdirSync tmpDir fs = Inr fs1 \<and> empty_dir tmpDir fs1 = Inr fs2"
  proof (cases "tmp_root fs")
    case None
    then show ?thesis by (simp add: mkdirSync_tmpDir empty_tmpDir fs2_def)
  next
    case (Some nd)
    with assms obtain es where "tmp_root fs = Some (Dir es)" by (cases nd) auto
    then show ?thesis by (simp add: mkdirSync_tmpDir empty_tmpDir fs2_def)
  qed
  then obtain fs1 where m: "mkdirSync tmpDir fs = Inr fs1" and e: "empty_dir tmpDir fs1 = Inr fs2"
    by blast
  have t: "tmp_root fs2 = Some (Dir [])" by (simp add: fs2_def)
  have o: "out_root fs2 = out_root fs" by (simp add: fs2_def)
  show ?thesis
  proof (cases "resolveOutDir (config env)")
    case (Inl err)
    then show ?thesis by (simp add: build_def m e fs2_def)
  next
    case (Inr d)
    obtain emitted status where c: "compiler env (Some (Dir [])) = (emitted, status)"
      by fastforce
    have good: "tsc env tmpDir fs2 = (None, fs\<lparr>tmp_root := emitted\<rparr>)"
      if "status = None \<or> status = Some 0"
      using that c tsc_tmpDir [OF t, of env] by (auto simp add: fs2_def)
    have bad: "tsc env tmpDir fs2 = (Some (Exited s []), fs\<lparr>tmp_root := None\<rparr>)"
      if "status = Some s" "s \<noteq> 0" for s
      using that c tsc_tmpDir [OF t, of env] by (auto simp add: fs2_def)
    show ?thesis
    proof (cases "status = None \<or> status = Some 0")
      case True
      have "build n env fs =
        (case license_txt env of
           None \<Rightarrow> Some (crash (SystemError ENOENT) (fs\<lparr>tmp_root := emitted\<rparr>))
         | Some txt \<Rightarrow>
             (case empty_dir outDir (fs\<lparr>tmp_root := emitted\<rparr>) of
                Inl e \<Rightarrow> Some (crash (SystemError e) (fs\<lparr>tmp_root := emitted\<rparr>))
              | Inr fs4 \<Rightarrow> normalize n (license_header txt) fs4))"
        by (simp add: build_def m e Inr good [OF True])
      then show ?thesis
        using True c Inr
        by (auto simp add: empty_outDir split: option.split node.split)
    next
      case False
      then obtain s where s: "status = Some s" "s \<noteq> 0" by (cases status) auto
      then show ?thesis
        using c Inr by (simp add: build_def m e bad [OF s])
    qed
  qed
qed

lemma build_reaches_walk:
  assumes "reaches_walk env fs"
  shows "build n env fs = normalize n (license_header (the (license_txt env))) (walk_input env)"
proof -
  from assms obtain d lic es where
    f: "\<And>s. tmp_root fs \<noteq> Some (File s)" and d: "resolveOutDir (config env) = Inr d"
    and st: "snd (compiler env (Some (Dir []))) = None \<or> snd (compiler env (Some (Dir []))) = Some 0"
    and l: "license_txt env = Some lic" and o: "out_root fs = Some (Dir es)"
    unfolding reaches_walk_def by blast
  obtain emitted status where c: "compiler env (Some (Dir [])) = (emitted, status)"
    by fastforce
  have "fs\<lparr>tmp_root := emitted, out_root := Some (Dir [])\<rparr> = walk_input env"
    using c by (simp add: walk_input_def)
  then show ?thesis
    using st c d l o by (auto simp add: build_unfold [OF f])
qed


section \<open>The walk returns\<close>

text \<open>
  No operation of the walk makes the tree below the staging directory higher than a
  bound that holds when the walk starts, so a recursion bound above the height of that
  tree is never used up.
\<close>

lemma fold_max_ge: "a \<le> fold max xs (a::nat)"
  by (induction xs arbitrary: a) (auto intro: order_trans [OF max.cobounded2])

lemma fold_max_mem: "x \<in> set xs \<Longrightarrow> x \<le> fold max xs (a::nat)"
  by (induction xs arbitrary: a) (auto intro: order_trans [OF max.cobounded1 fold_max_ge])

lemma fold_max_le: "a \<le> b \<Longrightarrow> (\<And>x. x \<in> set xs \<Longrightarrow> x \<le> b) \<Longrightarrow> fold max xs (a::nat) \<le> b"
  by (induction xs arbitrary: a) auto

lemma height_child: "(k, c) \<in> set es \<Longrightarrow> Suc (height c) \<le> height (Dir es)"
  by (auto intro!: fold_max_mem simp add: image_iff intro: bexI [where x = "(k, c)"])

lemma height_Dir_le:
  "(\<And>k c. (k, c) \<in> set es \<Longrightarrow> Suc (height c) \<le> b) \<Longrightarrow> height (Dir es) \<le> b"
  by (auto intro!: fold_max_le)

lemma height_Dir_Nil [simp]: "height (Dir []) = 0"
  by simp

declare height.simps(2) [simp del]

lemma height_delete: "height (Dir (AList.delete x es)) \<le> height (Dir es)"
  by (rule height_Dir_le) (auto simp add: AList.delete_eq intro: height_child)

lemma set_update_subset: "(k, c) \<in> set (AList.update x v es) \<Longrightarrow> (k, c) \<in> set es \<or> (k, c) = (x, v)"
  by (induction es) (auto split: if_splits)

lemma height_update:
  "height (Dir (AList.update x v es)) \<le> max (height (Dir es)) (Suc (height v))"
proof (rule height_Dir_le)
  fix k c assume "(k, c) \<in> set (AList.update x v es)"
  then have "(k, c) \<in> set es \<or> (k, c) = (x, v)" by (rule set_update_subset)
  then show "Suc (height c) \<le> max (height (Dir es)) (Suc (height v))"
    using height_child [of k c es] by auto
qed

lemma stat_node_height:
  "stat_node r p = Inr n \<Longrightarrow> length p + height n \<le> height_opt r"
proof (induction r p rule: stat_node.induct)
  case (4 es x xs)
  then obtain c where c: "map_of es x = Some c"
    by (cases "map_of es x") auto
  with 4 have "length xs + height n \<le> height c" by simp
  moreover from c have "Suc (height c) \<le> height (Dir es)"
    by (auto dest: map_of_SomeD intro: height_child)
  ultimately show ?case by simp
qed auto

lemma put_node_None_height:
  "put_node p None r = Inr r' \<Longrightarrow> height_opt r' \<le> height_opt r \<and> (r = None \<longrightarrow> r' = None)"
proof (induction p "None :: node option" r arbitrary: r' rule: put_node.induct)
  case (4 x xs es)
  then obtain c where c: "put_node xs None (map_of es x) = Inr c"
    and r': "r' = Some (Dir (set_entry x c es))"
    by (auto split: sum.splits)
  from 4(1) [OF c] have le: "height_opt c \<le> height_opt (map_of es x)"
    and none: "map_of es x = None \<longrightarrow> c = None" by auto
  show ?case
  proof (cases c)
    case None
    with r' show ?thesis by (simp add: height_delete)
  next
    case (Some c')
    with none obtain c0 where c0: "map_of es x = Some c0" by (cases "map_of es x") auto
    then have "Suc (height c0) \<le> height (Dir es)"
      by (auto dest: map_of_SomeD intro: height_child)
    with le Some c0 have "max (height (Dir es)) (Suc (height c')) \<le> height (Dir es)" by simp
    with height_update [of x c' es] Some r' show ?thesis by simp
  qed
qed auto

lemma mkdir_node_height:
  "mkdir_node p r = Inr r' \<Longrightarrow> height_opt r' \<le> max (height_opt r) (length p) \<and> r' \<noteq> None"
proof (induction p r arbitrary: r' rule: mkdir_node.induct)
  case (4 x xs)
  then obtain c where c: "mkdir_node xs None = Inr c" and r': "r' = Some (Dir (set_entry x c []))"
    by (auto split: sum.splits)
  from 4(1) [OF c] obtain c' where c': "c = Some c'" "height c' \<le> length xs" by (cases c) auto
  with r' show ?case by (simp add: height.simps(2))
next
  case (6 x xs es)
  then obtain c where c: "mkdir_node xs (map_of es x) = Inr c"
    and r': "r' = Some (Dir (set_entry x c es))"
    by (auto split: sum.splits)
  from 6(1) [OF c] obtain c' where c': "c = Some c'"
    "height c' \<le> max (height_opt (map_of es x)) (length xs)" by (cases c) auto
  have "Suc (height_opt (map_of es x)) \<le> max (height (Dir es)) (Suc (length xs))"
  proof (cases "map_of es x")
    case None then show ?thesis by simp
  next
    case (Some c0)
    then have "Suc (height c0) \<le> height (Dir es)"
      by (auto dest: map_of_SomeD intro: height_child)
    with Some show ?thesis by simp
  qed
  with c' have "Suc (height c') \<le> max (height (Dir es)) (Suc (length xs))" by auto
  with height_update [of x c' es] c' r' show ?case by simp
qed auto

lemma staging_height_remove: "staging_height (remove p fs) \<le> staging_height fs"
proof (cases "rmSync p fs")
  case (Inl e)
  then show ?thesis by (simp add: remove_def ignoreError_def)
next
  case (Inr fs')
  then obtain r where r: "put_node (snd p) None (vol fs (fst p)) = Inr r"
    and fs': "fs' = set_vol (fst p) r fs"
    by (auto simp add: rmSync_def put_def split: sum.splits)
  from put_node_None_height [OF r] have "height_opt r \<le> height_opt (vol fs (fst p))" by simp
  with fs' Inr show ?thesis
    by (cases "fst p") (simp_all add: remove_def ignoreError_def staging_height_def)
qed

lemma staging_height_mkdirSync:
  assumes "mkdirSync p fs = Inr fs'" "fst p = Tmp"
  shows "staging_height fs' \<le> max (staging_height fs) (length (snd p))"
proof -
  from assms obtain r where r: "mkdir_node (snd p) (tmp_root fs) = Inr r"
    and fs': "fs' = fs\<lparr>tmp_root := r\<rparr>"
    by (auto simp add: mkdirSync_def split: sum.splits)
  from mkdir_node_height [OF r] fs' show ?thesis by (simp add: staging_height_def)
qed

lemma staging_height_writeFileSync:
  "writeFileSync p c fs = Inr fs' \<Longrightarrow> fst p = Out \<Longrightarrow> staging_height fs' = staging_height fs"
  by (auto simp add: writeFileSync_def put_def staging_height_def
        split: sum.splits node.splits)

lemma staging_height_processFile:
  "processFile t q f lic fs = Finish fs' \<Longrightarrow> fst q = Out \<Longrightarrow> staging_height fs' = staging_height fs"
  by (auto simp add: processFile_def join_def split: sum.splits
        dest!: staging_height_writeFileSync)

lemma readdirSync_height:
  assumes "readdirSync p fs = Inr ds" "fst p = Tmp"
  shows "length (snd p) \<le> staging_height fs"
    and "ds \<noteq> [] \<Longrightarrow> length (snd p) < staging_height fs"
proof -
  from assms obtain es where s: "stat_node (tmp_root fs) (snd p) = Inr (Dir es)"
    and ds: "ds = map (\<lambda>(nm, c). Dirent nm (is_dir c)) es"
    by (auto simp add: readdirSync_def stat_def split: sum.splits node.splits)
  from stat_node_height [OF s] have le: "length (snd p) + height (Dir es) \<le> staging_height fs"
    by (simp add: staging_height_def)
  then show "length (snd p) \<le> staging_height fs" by simp
  assume "ds \<noteq> []"
  with ds obtain k c where "(k, c) \<in> set es" by (cases es) auto
  from height_child [OF this] le show "length (snd p) < staging_height fs" by simp
qed

lemma for_entries_returns:
  assumes nested: "\<And>m aw p q fs. n = Suc m \<Longrightarrow> fst p = Tmp \<Longrightarrow> fst q = Out \<Longrightarrow>
            staging_height fs \<le> B \<Longrightarrow> B \<le> length (snd p) + m \<Longrightarrow>
            \<exists>w. processFiles (Suc m) aw p q lic fs = Some w \<and> staging_height (fs_after w) \<le> B"
    and p: "fst p = Tmp" and q: "fst q = Out"
    and len: "length (snd p) \<le> B" and bound: "B \<le> length (snd p) + n"
  shows "staging_height fs \<le> B \<Longrightarrow> (ds \<noteq> [] \<Longrightarrow> length (snd p) < B) \<Longrightarrow>
         \<exists>w. for_entries n aw p q lic ds c orph fs = Some w \<and> staging_height (fs_after w) \<le> B"
proof (induction ds arbitrary: c orph fs)
  case Nil
  then show ?case
    using staging_height_remove [of p fs] by simp
next
  case (Cons d ds)
  from Cons.prems have lt: "length (snd p) < B" by simp
  have tail: "\<exists>w. for_entries n aw p q lic ds c' orph' fs' = Some w \<and> staging_height (fs_after w) \<le> B"
    if "staging_height fs' \<le> B" for c' orph' fs'
    using Cons.IH [OF that] lt by simp
  have rm: "staging_height (remove (join p (entry_name d)) fs') \<le> B"
    if "staging_height fs' \<le> B" for fs'
    using that staging_height_remove [of "join p (entry_name d)" fs'] by simp
  show ?case
  proof (cases "isDirectory d")
    case True
    from lt bound obtain m where m: "n = Suc m" by (cases n) auto
    have "\<exists>w. processFiles (Suc m) False (join p (entry_name d)) (join q (entry_name d)) lic fs
                = Some w \<and> staging_height (fs_after w) \<le> B"
      by (rule nested [OF m]) (use p q bound m Cons.prems(1) in \<open>simp_all add: join_def\<close>)
    then obtain w where
      w: "processFiles n False (join p (entry_name d)) (join q (entry_name d)) lic fs = Some w"
      and h: "staging_height (fs_after w) \<le> B"
      using m by auto
    from tail [OF h] w True show ?thesis by simp
  next
    case False
    note plain = this
    show ?thesis
    proof (cases "qualifies (entry_name d)")
      case False
      with plain tail [OF rm [OF Cons.prems(1)]] show ?thesis by simp
    next
      case True
      show ?thesis
      proof (cases "if c then Inr fs else mkdirSync p fs")
        case (Inl e)
        with plain True Cons.prems(1) show ?thesis by simp
      next
        case (Inr fs1)
        have h1: "staging_height fs1 \<le> B"
        proof (cases c)
          case True with Inr Cons.prems(1) show ?thesis by simp
        next
          case False
          with Inr have "mkdirSync p fs = Inr fs1" by simp
          from staging_height_mkdirSync [OF this p] Cons.prems(1) len show ?thesis by simp
        qed
        show ?thesis
        proof (cases "writeFileSync (join q (entry_name d)) lic fs1")
          case (Inl e)
          with plain True Inr h1 show ?thesis by simp
        next
          case (Inr fs2)
          from staging_height_writeFileSync [OF Inr] q h1 have h2: "staging_height fs2 \<le> B"
            by (simp add: join_def)
          note w2 = Inr
          show ?thesis
          proof (cases aw)
            case False
            with plain True \<open>(if c then Inr fs else mkdirSync p fs) = Inr fs1\<close> w2 h2
            show ?thesis by simp
          next
            case True
            note awaited = this
            show ?thesis
            proof (cases "processFile p q (entry_name d) lic fs2")
              case (Finish fs3)
              from staging_height_processFile [OF Finish q] h2 have "staging_height fs3 \<le> B" by simp
              from tail [OF rm [OF this]] plain \<open>qualifies (entry_name d)\<close> awaited
                \<open>(if c then Inr fs else mkdirSync p fs) = Inr fs1\<close> w2 Finish
              show ?thesis by simp
            next
              case (WriteError e)
              with plain \<open>qualifies (entry_name d)\<close> awaited
                \<open>(if c then Inr fs else mkdirSync p fs) = Inr fs1\<close> w2 h2
              show ?thesis by simp
            next
              case (ReadError e)
              with plain \<open>qualifies (entry_name d)\<close> awaited
                \<open>(if c then Inr fs else mkdirSync p fs) = Inr fs1\<close> w2 h2
              show ?thesis by simp
            qed
          qed
        qed
      qed
    qed
  qed
qed

lemma processFiles_returns:
  "fst p = Tmp \<Longrightarrow> fst q = Out \<Longrightarrow> staging_height fs \<le> B \<Longrightarrow> B \<le> length (snd p) + n \<Longrightarrow>
   \<exists>w. processFiles (Suc n) aw p q lic fs = Some w \<and> staging_height (fs_after w) \<le> B"
proof (induction n arbitrary: aw p q fs rule: less_induct)
  case (less n)
  show ?case
  proof (cases "readdirSync p fs")
    case (Inl e)
    with less.prems show ?thesis by simp
  next
    case (Inr ds)
    from readdirSync_height [OF Inr less.prems(1)] less.prems(3)
    have len: "length (snd p) \<le> B" and lt: "ds \<noteq> [] \<Longrightarrow> length (snd p) < B"
      by auto
    have "\<exists>w. for_entries n aw p q lic ds False [] fs = Some w \<and> staging_height (fs_after w) \<le> B"
    proof (rule for_entries_returns [OF _ less.prems(1,2) len less.prems(4) less.prems(3) lt])
      fix m aw' and p' q' :: path and fs'
      assume "n = Suc m" "fst p' = Tmp" "fst q' = Out" "staging_height fs' \<le> B"
        "B \<le> length (snd p') + m"
      then show "\<exists>w. processFiles (Suc m) aw' p' q' lic fs' = Some w \<and> staging_height (fs_after w) \<le> B"
        using less.IH [of m p' q' fs' aw'] by simp
    qed
    with Inr show ?thesis by simp
  qed
qed

text \<open>A larger bound gives the same result.\<close>

lemma recursion_bound_mono:
  "processFiles n aw p q lic fs = Some w \<Longrightarrow> processFiles (Suc n) aw p q lic fs = Some w"
  "for_entries n aw p q lic ds c orph fs = Some w \<Longrightarrow> for_entries (Suc n) aw p q lic ds c orph fs = Some w"
proof (induction n aw p q lic fs and n aw p q lic ds c orph fs arbitrary: w and w
        rule: processFiles_for_entries.induct)
  case (1 aw p q lic fs)
  then show ?case by simp
next
  case (2 n aw p q lic fs)
  then show ?case by (auto split: sum.splits)
next
  case (3 n aw p q lic c orph fs)
  then show ?case by simp
next
  case (4 n aw p q lic d ds c orph fs)
  show ?case
  proof (cases "isDirectory d")
    case True
    with "4.prems" obtain w' where
      w': "processFiles n False (join p (entry_name d)) (join q (entry_name d)) lic fs = Some w'"
      and rest: "for_entries n aw p q lic ds True (orph @ result w' # orphans w') (fs_after w') = Some w"
      by (auto split: option.splits)
    from "4.IH"(1) [OF True w'] "4.IH"(2) [OF True w' rest] True show ?thesis by simp
  next
    case False
    note plain = this
    show ?thesis
    proof (cases "qualifies (entry_name d)")
      case False
      with plain "4.IH"(4) "4.prems" show ?thesis by simp
    next
      case True
      with plain "4.IH"(3) "4.prems" show ?thesis
        by (auto split: sum.splits stream_end.splits if_splits)
    qed
  qed
qed

text \<open>The promise of a call that is waited for settles, or the read stream crashes.\<close>

lemma awaited_never_pending:
  "processFiles n aw p q lic fs = Some w \<Longrightarrow> aw \<Longrightarrow> result w \<noteq> Pending"
  "for_entries n aw p q lic ds c orph fs = Some w \<Longrightarrow> aw \<Longrightarrow> result w \<noteq> Pending"
proof (induction n aw p q lic fs and n aw p q lic ds c orph fs arbitrary: w and w
        rule: processFiles_for_entries.induct)
  case (4 n aw p q lic d ds c orph fs)
  show ?case
  proof (cases "isDirectory d")
    case True
    with "4.prems" obtain w' where
      w': "processFiles n False (join p (entry_name d)) (join q (entry_name d)) lic fs = Some w'"
      and rest: "for_entries n aw p q lic ds True (orph @ result w' # orphans w') (fs_after w') = Some w"
      by (auto split: option.splits)
    from "4.IH"(2) [OF True w' rest] "4.prems" show ?thesis by simp
  next
    case False
    note plain = this
    show ?thesis
    proof (cases "qualifies (entry_name d)")
      case False
      with plain "4.IH"(4) "4.prems" show ?thesis by simp
    next
      case True
      with plain "4.IH"(3) "4.prems" show ?thesis
        by (auto split: sum.splits stream_end.splits if_splits)
    qed
  qed
qed (auto split: sum.splits)

lemma normalize_returns:
  assumes "staging_height fs < n"
  shows "\<exists>w r. processFiles n True tmpDir outDir lic fs = Some w \<and> normalize n lic fs = Some r"
proof -
  from assms obtain m where m: "n = Suc m" by (cases n) auto
  with assms have "staging_height fs \<le> length (snd tmpDir) + m" by simp
  from processFiles_returns [OF _ _ order_refl this, of outDir True lic] m
  show ?thesis by (auto simp add: normalize_def tmpDir_def outDir_def)
qed


section \<open>What the walk leaves behind\<close>

text \<open>
  The script starts the walk on an empty output directory. No directory is ever made
  there, so every write of a nested call fails at once: a nested call changes nothing
  in the output directory and its promise is settled when it returns.
\<close>

lemma flat_map_of: "flat (Some (Dir es)) \<Longrightarrow> map_of es x = Some c \<Longrightarrow> \<not> is_dir c"
  by (auto simp add: list_all_iff dest!: map_of_SomeD)

lemma put_node_below_flat:
  assumes "flat r"
  shows "\<exists>e. put_node (x # y # ys) v r = Inl e"
proof -
  from assms obtain es where r: "r = Some (Dir es)"
    by (cases r rule: flat.cases) auto
  show ?thesis
  proof (cases "map_of es x")
    case None
    with r show ?thesis by simp
  next
    case (Some c)
    from flat_map_of [of es x c] assms r Some have "\<not> is_dir c" by simp
    then obtain s where "c = File s" by (cases c) auto
    with Some r show ?thesis by simp
  qed
qed

lemma stat_node_below_flat:
  assumes "flat r"
  shows "\<exists>e. stat_node r (x # y # ys) = Inl e"
proof -
  from assms obtain es where r: "r = Some (Dir es)"
    by (cases r rule: flat.cases) auto
  show ?thesis
  proof (cases "map_of es x")
    case None
    with r show ?thesis by simp
  next
    case (Some c)
    from flat_map_of [of es x c] assms r Some have "\<not> is_dir c" by simp
    then obtain s where "c = File s" by (cases c) auto
    with Some r show ?thesis by simp
  qed
qed

lemma writeFileSync_below_flat:
  assumes "flat (out_root fs)" "fst q = Out" "snd q \<noteq> []"
  shows "\<exists>e. writeFileSync (join q nm) c fs = Inl e"
proof -
  from assms(3) obtain x xs where "snd q = x # xs" by (cases "snd q") auto
  then obtain y ys where p: "snd q @ [nm] = x # y # ys" by (cases xs) auto
  from stat_node_below_flat [OF assms(1), of x y ys]
  obtain e1 where s: "stat_node (out_root fs) (x # y # ys) = Inl e1" by blast
  from put_node_below_flat [OF assms(1), of x y ys "Some (File c)"]
  obtain e2 where "put_node (x # y # ys) (Some (File c)) (out_root fs) = Inl e2" by blast
  with s show ?thesis
    using assms(2) p by (simp add: writeFileSync_def stat_def put_def join_def)
qed

lemma out_root_remove: "fst p = Tmp \<Longrightarrow> out_root (remove p fs) = out_root fs"
  by (auto simp add: remove_def ignoreError_def rmSync_def put_def split: sum.splits)

lemma out_root_mkdirSync: "mkdirSync p fs = Inr fs' \<Longrightarrow> fst p = Tmp \<Longrightarrow> out_root fs' = out_root fs"
  by (auto simp add: mkdirSync_def split: sum.splits)

lemma nested_walk_settles:
  "processFiles n aw p q lic fs = Some w \<Longrightarrow> fst p = Tmp \<Longrightarrow> fst q = Out \<Longrightarrow> snd q \<noteq> [] \<Longrightarrow>
     flat (out_root fs) \<Longrightarrow>
     out_root (fs_after w) = out_root fs \<and> result w \<noteq> Pending \<and> Pending \<notin> set (orphans w)"
  "for_entries n aw p q lic ds c orph fs = Some w \<Longrightarrow> fst p = Tmp \<Longrightarrow> fst q = Out \<Longrightarrow> snd q \<noteq> [] \<Longrightarrow>
     flat (out_root fs) \<Longrightarrow> Pending \<notin> set orph \<Longrightarrow>
     out_root (fs_after w) = out_root fs \<and> result w \<noteq> Pending \<and> Pending \<notin> set (orphans w)"
proof (induction n aw p q lic fs and n aw p q lic ds c orph fs arbitrary: w and w
        rule: processFiles_for_entries.induct)
  case (1 aw p q lic fs)
  then show ?case by simp
next
  case (2 n aw p q lic fs)
  show ?case
  proof (cases "readdirSync p fs")
    case (Inl e)
    with "2.prems" show ?thesis by auto
  next
    case (Inr ds)
    with "2.prems" have "for_entries n aw p q lic ds False [] fs = Some w" by simp
    from "2.IH" [OF Inr this "2.prems"(2-5)] show ?thesis by simp
  qed
next
  case (3 n aw p q lic c orph fs)
  then show ?case by (auto simp add: out_root_remove)
next
  case (4 n aw p q lic d ds c orph fs)
  have pj: "fst (join p (entry_name d)) = Tmp" and qj: "fst (join q (entry_name d)) = Out"
    and qn: "snd (join q (entry_name d)) \<noteq> []"
    using "4.prems" by (simp_all add: join_def)
  show ?case
  proof (cases "isDirectory d")
    case True
    with "4.prems" obtain w' where
      w': "processFiles n False (join p (entry_name d)) (join q (entry_name d)) lic fs = Some w'"
      and rest: "for_entries n aw p q lic ds True (orph @ result w' # orphans w') (fs_after w') = Some w"
      by (auto split: option.splits)
    from "4.IH"(1) [OF True w' pj qj qn "4.prems"(5)]
    have n: "out_root (fs_after w') = out_root fs" "result w' \<noteq> Pending" "Pending \<notin> set (orphans w')"
      by auto
    with "4.prems" have "flat (out_root (fs_after w'))" "Pending \<notin> set (orph @ result w' # orphans w')"
      by auto
    from "4.IH"(2) [OF True w' rest "4.prems"(2-4) this] n show ?thesis by simp
  next
    case False
    note plain = this
    show ?thesis
    proof (cases "qualifies (entry_name d)")
      case False
      with plain "4.prems" have
        "for_entries n aw p q lic ds c orph (remove (join p (entry_name d)) fs) = Some w" by simp
      from "4.IH"(4) [OF plain False this "4.prems"(2-4)] "4.prems"(5,6) pj
      show ?thesis by (simp add: out_root_remove)
    next
      case True
      show ?thesis
      proof (cases "if c then Inr fs else mkdirSync p fs")
        case (Inl e)
        with plain True "4.prems" show ?thesis by auto
      next
        case (Inr fs1)
        with "4.prems"(2) have o1: "out_root fs1 = out_root fs"
          by (auto split: if_splits dest: out_root_mkdirSync)
        with "4.prems" have "flat (out_root fs1)" by simp
        from writeFileSync_below_flat [OF this "4.prems"(3,4), of "entry_name d" lic]
        obtain e where "writeFileSync (join q (entry_name d)) lic fs1 = Inl e" by blast
        with plain True Inr "4.prems" o1 show ?thesis by auto
      qed
    qed
  qed
qed

lemma list_all_update:
  "list_all P es \<Longrightarrow> P (k, v) \<Longrightarrow> list_all P (AList.update k v es)"
  by (induction es) auto

lemma writeFileSync_top_flat:
  assumes "writeFileSync (Out, [nm]) c fs = Inr fs'" "flat (out_root fs)"
  shows "flat (out_root fs')"
proof -
  from assms(2) obtain es where r: "out_root fs = Some (Dir es)"
    by (cases "out_root fs" rule: flat.cases) auto
  with assms have "out_root fs' = Some (Dir (AList.update nm (File c) es))"
    by (auto simp add: writeFileSync_def stat_def put_def split: sum.splits node.splits option.splits)
  with assms(2) r show ?thesis by (simp add: list_all_update)
qed

lemma top_walk_settles:
  "for_entries n aw p (Out, []) lic ds c orph fs = Some w \<Longrightarrow> fst p = Tmp \<Longrightarrow>
     flat (out_root fs) \<Longrightarrow> Pending \<notin> set orph \<Longrightarrow>
     Pending \<notin> set (orphans w) \<and> flat (out_root (fs_after w))"
proof (induction ds arbitrary: c orph fs)
  case Nil
  then show ?case by (auto simp add: out_root_remove)
next
  case (Cons d ds)
  let ?nm = "entry_name d"
  have pj: "fst (join p ?nm) = Tmp" using Cons.prems by (simp add: join_def)
  show ?case
  proof (cases "isDirectory d")
    case True
    with Cons.prems obtain w' where
      w': "processFiles n False (join p ?nm) (join (Out, []) ?nm) lic fs = Some w'"
      and rest: "for_entries n aw p (Out, []) lic ds True (orph @ result w' # orphans w') (fs_after w') = Some w"
      by (auto split: option.splits)
    from nested_walk_settles(1) [OF w' pj _ _ Cons.prems(3)]
    have n: "out_root (fs_after w') = out_root fs" "result w' \<noteq> Pending" "Pending \<notin> set (orphans w')"
      by (auto simp add: join_def)
    with Cons.prems have "flat (out_root (fs_after w'))" "Pending \<notin> set (orph @ result w' # orphans w')"
      by auto
    from Cons.IH [OF rest Cons.prems(2) this] show ?thesis .
  next
    case False
    note plain = this
    show ?thesis
    proof (cases "qualifies ?nm")
      case False
      with plain Cons.prems have
        "for_entries n aw p (Out, []) lic ds c orph (remove (join p ?nm) fs) = Some w" by simp
      from Cons.IH [OF this Cons.prems(2)] Cons.prems(3,4) pj
      show ?thesis by (simp add: out_root_remove)
    next
      case True
      show ?thesis
      proof (cases "if c then Inr fs else mkdirSync p fs")
        case (Inl e)
        with plain True Cons.prems show ?thesis by auto
      next
        case (Inr fs1)
        with Cons.prems(2) have "out_root fs1 = out_root fs"
          by (auto split: if_splits dest: out_root_mkdirSync)
        with Cons.prems have f1: "flat (out_root fs1)" by simp
        show ?thesis
        proof (cases "writeFileSync (join (Out, []) ?nm) lic fs1")
          case (Inl e)
          with plain True Inr Cons.prems f1 show ?thesis by auto
        next
          case w2: (Inr fs2)
          then have f2: "flat (out_root fs2)"
            using writeFileSync_top_flat [of ?nm lic fs1 fs2] f1 by (simp add: join_def)
          show ?thesis
          proof (cases aw)
            case False
            with plain True Inr w2 Cons.prems f2 show ?thesis by auto
          next
            case True
            note awaited = this
            show ?thesis
            proof (cases "processFile p (Out, []) ?nm lic fs2")
              case (Finish fs3)
              then have "flat (out_root fs3)"
                using f2 by (auto simp add: processFile_def join_def split: sum.splits
                    dest: writeFileSync_top_flat)
              with pj have f3: "flat (out_root (remove (join p ?nm) fs3))"
                by (simp add: out_root_remove)
              from plain \<open>qualifies ?nm\<close> awaited Inr w2 Finish Cons.prems(1)
              have "for_entries n aw p (Out, []) lic ds c orph (remove (join p ?nm) fs3) = Some w"
                by simp
              from Cons.IH [OF this Cons.prems(2) f3 Cons.prems(4)] show ?thesis .
            next
              case (WriteError e)
              with plain \<open>qualifies ?nm\<close> awaited Inr w2 Cons.prems f2 show ?thesis by auto
            next
              case (ReadError e)
              with plain \<open>qualifies ?nm\<close> awaited Inr w2 Cons.prems f2 show ?thesis by auto
            qed
          qed
        qed
      qed
    qed
  qed
qed

lemma script_walk_settles:
  assumes "processFiles n True tmpDir outDir lic fs = Some w" "out_root fs = Some (Dir [])"
  shows "Pending \<notin> set (orphans w)"
proof (cases "readdirSync tmpDir fs")
  case (Inl e)
  with assms obtain m where "n = Suc m" by (cases n) auto
  with Inl assms show ?thesis by auto
next
  case (Inr ds)
  from assms obtain m where m: "n = Suc m" by (cases n) auto
  with Inr assms have "for_entries m True tmpDir (Out, []) lic ds False [] fs = Some w"
    by (simp add: outDir_def)
  from top_walk_settles [OF this] assms(2) show ?thesis by (simp add: tmpDir_def)
qed

text \<open>A nested call for the entry \<open>x\<close> of a directory leaves the other entries alone.\<close>

lemma frame_refl: "frame x (Some (Dir ts)) (Some (Dir ts))"
  by (auto simp add: frame_def)

lemma frame_trans: "frame x r r' \<Longrightarrow> frame x r' r'' \<Longrightarrow> frame x r r''"
  by (auto simp add: frame_def)

lemma frame_Dir: "frame x r r' \<Longrightarrow> \<exists>ts'. r' = Some (Dir ts')"
  by (auto simp add: frame_def)

lemma map_of_set_entry: "y \<noteq> x \<Longrightarrow> map_of (set_entry x c ts) y = map_of ts y"
  by (cases c) (simp_all add: AList.update_conv' AList.delete_conv')

lemma frame_put_node:
  "put_node (x # xs) v (Some (Dir ts)) = Inr r' \<Longrightarrow> frame x (Some (Dir ts)) r'"
  by (auto simp add: frame_def map_of_set_entry split: sum.splits)

lemma frame_mkdir_node:
  "mkdir_node (x # xs) (Some (Dir ts)) = Inr r' \<Longrightarrow> frame x (Some (Dir ts)) r'"
  by (auto simp add: frame_def map_of_set_entry split: sum.splits)

lemma frame_remove:
  assumes "tmp_root fs = Some (Dir ts)" "fst p = Tmp" "snd p = x # xs"
  shows "frame x (tmp_root fs) (tmp_root (remove p fs))"
proof (cases "rmSync p fs")
  case (Inl e)
  with assms show ?thesis by (simp add: remove_def ignoreError_def frame_refl)
next
  case (Inr fs')
  with assms obtain r' where "put_node (x # xs) None (Some (Dir ts)) = Inr r'"
    and "fs' = fs\<lparr>tmp_root := r'\<rparr>"
    by (auto simp add: rmSync_def put_def split: sum.splits)
  with Inr assms frame_put_node [of x xs None ts r'] show ?thesis
    by (simp add: remove_def ignoreError_def)
qed

lemma frame_mkdirSync:
  assumes "mkdirSync p fs = Inr fs'" "tmp_root fs = Some (Dir ts)" "fst p = Tmp" "snd p = x # xs"
  shows "frame x (tmp_root fs) (tmp_root fs')"
  using assms frame_mkdir_node [of x xs ts]
  by (auto simp add: mkdirSync_def split: sum.splits)

lemma tmp_root_writeFileSync:
  "writeFileSync p c fs = Inr fs' \<Longrightarrow> fst p = Out \<Longrightarrow> tmp_root fs' = tmp_root fs"
  by (auto simp add: writeFileSync_def put_def split: sum.splits node.splits)

lemma tmp_root_processFile:
  "processFile t q f lic fs = Finish fs' \<Longrightarrow> fst q = Out \<Longrightarrow> tmp_root fs' = tmp_root fs"
  by (auto simp add: processFile_def join_def split: sum.splits dest!: tmp_root_writeFileSync)

lemma nested_walk_frame:
  "processFiles n aw p q lic fs = Some w \<Longrightarrow> fst p = Tmp \<Longrightarrow> fst q = Out \<Longrightarrow>
     snd p = x # xs \<Longrightarrow> tmp_root fs = Some (Dir ts) \<Longrightarrow>
     frame x (tmp_root fs) (tmp_root (fs_after w))"
  "for_entries n aw p q lic ds c orph fs = Some w \<Longrightarrow> fst p = Tmp \<Longrightarrow> fst q = Out \<Longrightarrow>
     snd p = x # xs \<Longrightarrow> tmp_root fs = Some (Dir ts) \<Longrightarrow>
     frame x (tmp_root fs) (tmp_root (fs_after w))"
proof (induction n aw p q lic fs and n aw p q lic ds c orph fs arbitrary: w xs ts and w xs ts
        rule: processFiles_for_entries.induct)
  case (1 aw p q lic fs)
  then show ?case by simp
next
  case (2 n aw p q lic fs)
  show ?case
  proof (cases "readdirSync p fs")
    case (Inl e)
    with "2.prems" show ?thesis by (auto simp add: frame_refl)
  next
    case (Inr ds)
    with "2.prems" have "for_entries n aw p q lic ds False [] fs = Some w" by simp
    from "2.IH" [OF Inr this "2.prems"(2-5)] show ?thesis .
  qed
next
  case (3 n aw p q lic c orph fs)
  from frame_remove [OF "3.prems"(5,2,4)] "3.prems"(1) show ?case by auto
next
  case (4 n aw p q lic d ds c orph fs)
  let ?nm = "entry_name d"
  have pj: "fst (join p ?nm) = Tmp" "snd (join p ?nm) = x # (xs @ [?nm])"
    and qj: "fst (join q ?nm) = Out"
    using "4.prems" by (simp_all add: join_def)
  have step: "frame x (tmp_root fs) (tmp_root (fs_after w))"
    if "for_entries n aw p q lic ds c' orph' fs' = Some w"
      and ih: "\<And>w xs ts. for_entries n aw p q lic ds c' orph' fs' = Some w \<Longrightarrow> fst p = Tmp \<Longrightarrow>
              fst q = Out \<Longrightarrow> snd p = x # xs \<Longrightarrow> tmp_root fs' = Some (Dir ts) \<Longrightarrow>
              frame x (tmp_root fs') (tmp_root (fs_after w))"
      and "frame x (tmp_root fs) (tmp_root fs')"
    for c' orph' fs'
  proof -
    from that(3) obtain ts' where "tmp_root fs' = Some (Dir ts')" by (auto dest: frame_Dir)
    from ih [OF that(1) "4.prems"(2-4) this] that(3) show ?thesis by (rule frame_trans [rotated])
  qed
  show ?case
  proof (cases "isDirectory d")
    case True
    with "4.prems" obtain w' where
      w': "processFiles n False (join p ?nm) (join q ?nm) lic fs = Some w'"
      and rest: "for_entries n aw p q lic ds True (orph @ result w' # orphans w') (fs_after w') = Some w"
      by (auto split: option.splits)
    from "4.IH"(1) [OF True w' pj(1) qj pj(2) "4.prems"(5)]
    have "frame x (tmp_root fs) (tmp_root (fs_after w'))" .
    from step [OF rest "4.IH"(2) [OF True w'] this] show ?thesis .
  next
    case False
    note plain = this
    show ?thesis
    proof (cases "qualifies ?nm")
      case False
      with plain "4.prems" have
        rest: "for_entries n aw p q lic ds c orph (remove (join p ?nm) fs) = Some w" by simp
      from frame_remove [OF "4.prems"(5) pj]
      have "frame x (tmp_root fs) (tmp_root (remove (join p ?nm) fs))" .
      from step [OF rest "4.IH"(4) [OF plain False] this] show ?thesis .
    next
      case True
      show ?thesis
      proof (cases "if c then Inr fs else mkdirSync p fs")
        case (Inl e)
        with plain True "4.prems" show ?thesis by (auto simp add: frame_refl)
      next
        case (Inr fs1)
        have f1: "frame x (tmp_root fs) (tmp_root fs1)"
        proof (cases c)
          case True
          with Inr "4.prems"(5) show ?thesis by (simp add: frame_refl)
        next
          case False
          with Inr have "mkdirSync p fs = Inr fs1" by simp
          from frame_mkdirSync [OF this "4.prems"(5,2,4)] show ?thesis .
        qed
        show ?thesis
        proof (cases "writeFileSync (join q ?nm) lic fs1")
          case (Inl e)
          with plain True Inr "4.prems" f1 show ?thesis by auto
        next
          case w2: (Inr fs2)
          from tmp_root_writeFileSync [OF w2 qj] f1
          have f2: "frame x (tmp_root fs) (tmp_root fs2)" by simp
          show ?thesis
          proof (cases aw)
            case False
            with plain True Inr w2 "4.prems" f2 show ?thesis by auto
          next
            case True
            note awaited = this
            show ?thesis
            proof (cases "processFile p q ?nm lic fs2")
              case (Finish fs3)
              from tmp_root_processFile [OF Finish "4.prems"(3)] f2
              have f3: "frame x (tmp_root fs) (tmp_root fs3)" by simp
              then obtain ts3 where "tmp_root fs3 = Some (Dir ts3)" by (auto dest: frame_Dir)
              from frame_remove [OF this pj]
              have "frame x (tmp_root fs3) (tmp_root (remove (join p ?nm) fs3))" .
              with f3 have f4: "frame x (tmp_root fs) (tmp_root (remove (join p ?nm) fs3))"
                by (rule frame_trans)
              from plain \<open>qualifies ?nm\<close> awaited Inr w2 Finish "4.prems"(1)
              have rest: "for_entries n aw p q lic ds c orph (remove (join p ?nm) fs3) = Some w"
                by simp
              have a: "\<not> \<not> aw" using awaited by simp
              from step [OF rest "4.IH"(3) [OF plain \<open>qualifies ?nm\<close> Inr w2 a Finish] f4]
              show ?thesis .
            next
              case (WriteError e)
              with plain \<open>qualifies ?nm\<close> awaited Inr w2 "4.prems" f2 show ?thesis by auto
            next
              case (ReadError e)
              with plain \<open>qualifies ?nm\<close> awaited Inr w2 "4.prems" f2 show ?thesis by auto
            qed
          qed
        qed
      qed
    qed
  qed
qed

text \<open>
  The walk of the script, on a staging directory with entries \<open>es\<close> and an empty output
  directory: it returns, its promise resolves, the staging directory is gone, and the
  output directory holds the files of \<open>es\<close> whose name qualifies, with the license in
  front, and nothing else: nothing of what is in the subdirectories of \<open>es\<close>.
\<close>

lemma update_new: "k \<notin> fst ` set al \<Longrightarrow> AList.update k v al = al @ [(k, v)]"
  by (induction al) auto

lemma mkdirSync_existing: "tmp_root fs = Some (Dir ts) \<Longrightarrow> mkdirSync (Tmp, []) fs = Inr fs"
  using mkdirSync_tmpDir [of fs] by (simp add: tmpDir_def)

lemma copy_step:
  assumes t: "tmp_root fs = Some (Dir ts)" and f: "map_of ts nm = Some (File s)"
    and o: "out_root fs = Some (Dir os)" and new: "nm \<notin> fst ` set os"
  shows "writeFileSync (join (Out, []) nm) lic fs
           = Inr (fs\<lparr>out_root := Some (Dir (os @ [(nm, File lic)]))\<rparr>)"
    and "processFile (Tmp, []) (Out, []) nm lic (fs\<lparr>out_root := Some (Dir (os @ [(nm, File lic)]))\<rparr>)
           = Finish (fs\<lparr>out_root := Some (Dir (os @ [(nm, File (lic @ s))]))\<rparr>)"
    and "remove (join (Tmp, []) nm) (fs\<lparr>out_root := Some (Dir (os @ [(nm, File (lic @ s))]))\<rparr>)
           = fs\<lparr>tmp_root := Some (Dir (AList.delete nm ts)),
                out_root := Some (Dir (os @ [(nm, File (lic @ s))]))\<rparr>"
proof -
  from new have none: "map_of os nm = None" by (simp add: map_of_eq_None_iff)
  with o show "writeFileSync (join (Out, []) nm) lic fs
           = Inr (fs\<lparr>out_root := Some (Dir (os @ [(nm, File lic)]))\<rparr>)"
    using new by (simp add: writeFileSync_def stat_def put_def join_def update_new)
  have "AList.update nm (File (lic @ s)) (os @ [(nm, File lic)]) = os @ [(nm, File (lic @ s))]"
    using update_new [OF new, of "File lic"] update_new [OF new, of "File (lic @ s)"]
      AList.update_last [of nm "File (lic @ s)" "File lic" os] by simp
  with t f none show "processFile (Tmp, []) (Out, []) nm lic
           (fs\<lparr>out_root := Some (Dir (os @ [(nm, File lic)]))\<rparr>)
           = Finish (fs\<lparr>out_root := Some (Dir (os @ [(nm, File (lic @ s))]))\<rparr>)"
    by (simp add: processFile_def readFile_def writeFileSync_def stat_def put_def join_def
          map_add_def)
  from t show "remove (join (Tmp, []) nm) (fs\<lparr>out_root := Some (Dir (os @ [(nm, File (lic @ s))]))\<rparr>)
           = fs\<lparr>tmp_root := Some (Dir (AList.delete nm ts)),
                out_root := Some (Dir (os @ [(nm, File (lic @ s))]))\<rparr>"
    using remove_child [of "fs\<lparr>out_root := Some (Dir (os @ [(nm, File (lic @ s))]))\<rparr>" Tmp ts nm]
    by simp
qed

lemma top_walk_output:
  "for_entries n True (Tmp, []) (Out, []) lic (map (\<lambda>(nm, c). Dirent nm (is_dir c)) es) c orph fs
     = Some w \<Longrightarrow>
   tmp_root fs = Some (Dir ts) \<Longrightarrow> (\<forall>(nm, nd) \<in> set es. map_of ts nm = Some nd) \<Longrightarrow>
   distinct (map fst es) \<Longrightarrow> out_root fs = Some (Dir os) \<Longrightarrow> flat (Some (Dir os)) \<Longrightarrow>
   fst ` set os \<inter> fst ` set es = {} \<Longrightarrow>
   result w = Resolved \<and> tmp_root (fs_after w) = None
   \<and> out_root (fs_after w) = Some (Dir (os @ copied lic es))"
proof (induction es arbitrary: c orph fs ts os)
  case Nil
  then show ?case
    using remove_tmpDir [of fs] by (auto simp add: tmpDir_def)
next
  case (Cons e es)
  obtain nm nd where e: "e = (nm, nd)" by (cases e)
  from Cons.prems(3) e have here: "map_of ts nm = Some nd"
    and others: "\<forall>(k, v) \<in> set es. map_of ts k = Some v" by auto
  from Cons.prems(4) e have fresh: "nm \<notin> fst ` set es" and dist: "distinct (map fst es)"
    by auto
  from Cons.prems(7) e have new: "nm \<notin> fst ` set os" and disj: "fst ` set os \<inter> fst ` set es = {}"
    by auto
  have others': "\<forall>(k, v) \<in> set es. map_of ts' k = Some v"
    if same: "\<forall>y. y \<noteq> nm \<longrightarrow> map_of ts' y = map_of ts y" for ts'
  proof (rule ballI)
    fix kv assume mem: "kv \<in> set es"
    obtain k v where kv: "kv = (k, v)" by (cases kv)
    from mem kv fresh have "k \<noteq> nm" by force
    with same have "map_of ts' k = map_of ts k" by simp
    moreover from others mem kv have "map_of ts k = Some v" by auto
    ultimately show "case kv of (k, v) \<Rightarrow> map_of ts' k = Some v" using kv by simp
  qed
  show ?case
  proof (cases nd)
    case (Dir ds)
    with e Cons.prems(1) obtain w' where
      w': "processFiles n False (join (Tmp, []) nm) (join (Out, []) nm) lic fs = Some w'"
      and rest: "for_entries n True (Tmp, []) (Out, []) lic (map (\<lambda>(nm, c). Dirent nm (is_dir c)) es)
                   True (orph @ result w' # orphans w') (fs_after w') = Some w"
      by (auto split: option.splits)
    from nested_walk_settles(1) [OF w'] Cons.prems(5,6)
    have o': "out_root (fs_after w') = Some (Dir os)" by (simp add: join_def)
    from nested_walk_frame(1) [OF w' _ _ _ Cons.prems(2), of nm "[]"]
    have "frame nm (tmp_root fs) (tmp_root (fs_after w'))" by (simp add: join_def)
    with Cons.prems(2) obtain ts' where t': "tmp_root (fs_after w') = Some (Dir ts')"
      and same: "\<forall>y. y \<noteq> nm \<longrightarrow> map_of ts' y = map_of ts y"
      by (auto simp add: frame_def)
    from Cons.IH [OF rest t' others' [OF same] dist o' Cons.prems(6) disj] e Dir
    show ?thesis by simp
  next
    case (File s)
    show ?thesis
    proof (cases "qualifies nm")
      case False
      let ?fs = "fs\<lparr>tmp_root := Some (Dir (AList.delete nm ts))\<rparr>"
      from Cons.prems(2) have rm: "remove (join (Tmp, []) nm) fs = ?fs"
        using remove_child [of fs Tmp ts nm] by simp
      with e File False Cons.prems(1) have
        rest: "for_entries n True (Tmp, []) (Out, []) lic (map (\<lambda>(nm, c). Dirent nm (is_dir c)) es)
                 c orph ?fs = Some w"
        by simp
      have "\<forall>y. y \<noteq> nm \<longrightarrow> map_of (AList.delete nm ts) y = map_of ts y" by simp
      from Cons.IH [OF rest _ others' [OF this] dist _ Cons.prems(6) disj] Cons.prems(5) e File False
      show ?thesis by simp
    next
      case True
      let ?os = "os @ [(nm, File (lic @ s))]"
      let ?fs = "fs\<lparr>tmp_root := Some (Dir (AList.delete nm ts)), out_root := Some (Dir ?os)\<rparr>"
      from here File have f: "map_of ts nm = Some (File s)" by simp
      note steps = copy_step [OF Cons.prems(2) f Cons.prems(5) new, of lic]
      have mk: "(if c then Inr fs else mkdirSync (Tmp, []) fs) = Inr fs"
        using mkdirSync_existing [OF Cons.prems(2)] by simp
      from e File True Cons.prems(1) have
        rest: "for_entries n True (Tmp, []) (Out, []) lic (map (\<lambda>(nm, c). Dirent nm (is_dir c)) es)
                 c orph ?fs = Some w"
        by (simp add: mk steps)
      have same: "\<forall>y. y \<noteq> nm \<longrightarrow> map_of (AList.delete nm ts) y = map_of ts y" by simp
      have fl: "flat (Some (Dir ?os))" using Cons.prems(6) by simp
      have dj: "fst ` set ?os \<inter> fst ` set es = {}" using disj fresh by auto
      from Cons.IH [OF rest _ others' [OF same] dist _ fl dj] e File True
      show ?thesis by simp
    qed
  qed
qed

lemma readdirSync_tmpDir:
  "tmp_root fs = Some (Dir es) \<Longrightarrow>
   readdirSync tmpDir fs = Inr (map (\<lambda>(nm, c). Dirent nm (is_dir c)) es)"
  by (simp add: readdirSync_def stat_def tmpDir_def)

lemma processFiles_output:
  assumes t: "tmp_root fs = Some (Dir es)" and d: "distinct (map fst es)"
    and o: "out_root fs = Some (Dir [])" and n: "height (Dir es) < n"
  shows "\<exists>w. processFiles n True tmpDir outDir lic fs = Some w \<and> result w = Resolved
             \<and> Pending \<notin> set (orphans w)
             \<and> fs_after w = \<lparr>tmp_root = None, out_root = Some (Dir (copied lic es))\<rparr>"
proof -
  from n obtain m where m: "n = Suc m" by (cases n) auto
  from t n have "staging_height fs < n" by (simp add: staging_height_def)
  from normalize_returns [OF this] obtain w where
    w: "processFiles n True tmpDir outDir lic fs = Some w" by blast
  with m t have loop: "for_entries m True (Tmp, []) (Out, []) lic
       (map (\<lambda>(nm, c). Dirent nm (is_dir c)) es) False [] fs = Some w"
    using readdirSync_tmpDir [OF t] by (simp add: tmpDir_def outDir_def)
  from d have "\<forall>(nm, nd) \<in> set es. map_of es nm = Some nd" by auto
  from top_walk_output [OF loop t this d o] 
  have "result w = Resolved" "tmp_root (fs_after w) = None"
    "out_root (fs_after w) = Some (Dir (copied lic es))" by simp_all
  moreover from script_walk_settles [OF w o] have "Pending \<notin> set (orphans w)" .
  ultimately show ?thesis using w by (cases "fs_after w") auto
qed

lemma copied_file:
  "distinct (map fst es) \<Longrightarrow> (nm, File s) \<in> set es \<Longrightarrow> qualifies nm \<Longrightarrow>
   map_of (copied lic es) nm = Some (File (lic @ s))"
proof (induction lic es rule: copied.induct)
  case (2 lic k s' es)
  then show ?case by (auto simp add: image_iff) 
next
  case (3 lic k ds es)
  then show ?case by (auto simp add: image_iff)
qed simp

lemma copied_keys: "fst ` set (copied lic es) \<subseteq> {nm. qualifies nm \<and> (\<exists>s. (nm, File s) \<in> set es)}"
  by (induction lic es rule: copied.induct) auto

lemma copied_flat: "flat (Some (Dir (copied lic es)))"
  by (induction lic es rule: copied.induct) auto


text \<open>
  The same for the script as a whole: when it gets to the walk and the compiler has left
  a directory with the entries \<open>es\<close>, it ends by itself with the staging directory gone
  and the output directory holding the top-level files of \<open>es\<close> whose name qualifies.
\<close>

lemma build_output:
  assumes walk: "reaches_walk env fs"
    and emitted: "compiler env (Some (Dir [])) = (Some (Dir es), status)"
    and names: "distinct (map fst es)"
    and license: "license_txt env = Some lic"
    and bound: "height (Dir es) < n"
  shows "\<exists>r. build n env fs = Some r \<and> ending r = Completed
             \<and> final_fs r = \<lparr>tmp_root = None,
                             out_root = Some (Dir (copied (license_header lic) es))\<rparr>"
proof -
  from emitted have input: "walk_input env = \<lparr>tmp_root = Some (Dir es), out_root = Some (Dir [])\<rparr>"
    by (simp add: walk_input_def)
  from processFiles_output [of "walk_input env" es n "license_header lic"] input names bound
  obtain w where "processFiles n True tmpDir outDir (license_header lic) (walk_input env) = Some w"
    and "result w = Resolved"
    and "fs_after w = \<lparr>tmp_root = None, out_root = Some (Dir (copied (license_header lic) es))\<rparr>"
    by auto
  then show ?thesis
    using build_reaches_walk [OF walk, of n] license by (simp add: normalize_def)
qed


section \<open>Two runs, and the exit status\<close>






end
